theory Spec2Isabelle
  imports Complex_Main "HOL-Library.Sublist"
begin

section \<open>JavaScript values used by the transcription pipeline\<close>

text \<open>
  Numbers are JavaScript doubles in the source. Times in seconds are modelled as exact
  reals, wall-clock readings of \<^verbatim>\<open>Date.now()\<close> as integers (milliseconds).
  A property that may be \<^verbatim>\<open>undefined\<close> is an \<open>option\<close>. Strings are character lists.
  Console logging and event emission do not influence any value or state below and are
  left out.
\<close>

text \<open>\<^verbatim>\<open>Array.prototype.join(' ')\<close>.\<close>

fun join_sp :: "string list \<Rightarrow> string" where
  "join_sp [] = []"
| "join_sp [x] = x"
| "join_sp (x # y # ys) = x @ '' '' @ join_sp (y # ys)"

text \<open>\<^verbatim>\<open>String.prototype.includes\<close>: \<open>str_includes s t\<close> holds when \<open>t\<close> occurs in \<open>s\<close>.\<close>

fun str_includes :: "string \<Rightarrow> string \<Rightarrow> bool" where
  "str_includes [] t = (t = [])"
| "str_includes (c # cs) t = (prefix t (c # cs) \<or> str_includes cs t)"

text \<open>The white space of \<^verbatim>\<open>\s\<close> and \<^verbatim>\<open>trim()\<close>, restricted to ASCII.\<close>

definition is_space :: "char \<Rightarrow> bool" where
  "is_space c = (c \<in> {CHR '' '', CHR 0x09, CHR 0x0A, CHR 0x0B, CHR 0x0C, CHR 0x0D})"

definition trim :: "string \<Rightarrow> string" where
  "trim s = rev (dropWhile is_space (rev (dropWhile is_space s)))"

text \<open>\<^verbatim>\<open>replace(/\s+/g, ' ')\<close>: every maximal run of white space becomes one blank.\<close>

function collapse_ws :: "string \<Rightarrow> string" where
  "collapse_ws [] = []"
| "collapse_ws (c # cs) =
     (if is_space c then CHR '' '' # collapse_ws (dropWhile is_space cs)
      else c # collapse_ws cs)"
  by pat_completeness auto
termination
  by (relation "measure length") (auto simp: le_imp_less_Suc length_dropWhile_le)

section \<open>Transcript Merger (class TranscriptMerger, in audio-splitter.js)\<close>

text \<open>
  A segment as the merger receives it: every property may be missing.
  \<open>in_words\<close> holds the \<open>start\<close> and \<open>end\<close> of each word.
\<close>

record in_segment =
  in_id :: "int option"
  in_start :: "real option"
  in_end :: "real option"
  in_text :: "string option"
  in_words :: "(real option \<times> real option) list option"

text \<open>
  The shapes \<^verbatim>\<open>_normalizeTranscript\<close> distinguishes: a plain string, an array of
  segments, an object with optional \<open>segments\<close>, \<open>text\<close> and \<open>language\<close>, and
  anything else (\<^verbatim>\<open>null\<close>, a number, ...).
\<close>

datatype transcript =
    TString string
  | TArray "in_segment list"
  | TObject "in_segment list option" "string option" "string option"
  | TOther

text \<open>A segment after normalisation: every property is set.\<close>

record segment =
  seg_id :: int
  seg_start :: real
  seg_end :: real
  seg_text :: string
  seg_words :: "(real \<times> real) list option"

record normalized =
  n_text :: string
  n_segments :: "segment list"
  n_language :: string

record merged =
  m_text :: string
  m_segments :: "segment list"
  m_language :: string
  m_duration :: real
  m_chunkCount :: nat
  m_segmentCount :: nat

text \<open>\<^verbatim>\<open>x || d\<close> on a string that may be undefined: the empty string is falsy too.\<close>

definition str_or :: "string option \<Rightarrow> string \<Rightarrow> string" where
  "str_or x d = (case x of None \<Rightarrow> d | Some s \<Rightarrow> if s = [] then d else s)"

text \<open>\<^verbatim>\<open>x || 0\<close> on a number that may be undefined.\<close>

definition num_or0 :: "real option \<Rightarrow> real" where
  "num_or0 x = (case x of None \<Rightarrow> 0 | Some v \<Rightarrow> v)"

text \<open>The callback of \<^verbatim>\<open>segments.map((segment, index) => ...)\<close> in \<^verbatim>\<open>_normalizeTranscript\<close>.\<close>

definition adjustSegment :: "real \<Rightarrow> nat \<Rightarrow> in_segment \<Rightarrow> segment" where
  "adjustSegment offsetSeconds index s =
     (let baseStart = (case in_start s of Some st \<Rightarrow> st + offsetSeconds
                        | None \<Rightarrow> offsetSeconds + real index * 5);
          baseEnd = (case in_end s of Some en \<Rightarrow> en + offsetSeconds
                      | None \<Rightarrow> baseStart + 5)
      in \<lparr> seg_id = (case in_id s of Some i \<Rightarrow> i | None \<Rightarrow> int index),
           seg_start = max 0 baseStart,
           seg_end = max baseStart baseEnd,
           seg_text = str_or (in_text s) [],
           seg_words = map_option
             (map (\<lambda>(ws, we). (num_or0 ws + offsetSeconds, num_or0 we + offsetSeconds)))
             (in_words s) \<rparr>)"

definition normalizeTranscript :: "transcript \<Rightarrow> real \<Rightarrow> normalized" where
  "normalizeTranscript t offsetSeconds =
     (let (segments, text, language) =
        (case t of
           TString s \<Rightarrow>
             ([\<lparr> in_id = Some 0, in_start = Some offsetSeconds,
                 in_end = Some (offsetSeconds + 60), in_text = Some s, in_words = None \<rparr>],
              s, ''unknown'')
         | TArray segs \<Rightarrow>
             (segs, join_sp (map (\<lambda>s. str_or (in_text s) []) segs), ''unknown'')
         | TObject segs txt lang \<Rightarrow>
             ((case segs of None \<Rightarrow> [] | Some ss \<Rightarrow> ss), str_or txt [],
              str_or lang ''unknown'')
         | TOther \<Rightarrow> ([], [], ''unknown''));
        adjustedSegments =
          map (\<lambda>(index, segment). adjustSegment offsetSeconds index segment)
            (enumerate 0 segments)
      in \<lparr> n_text = (if text \<noteq> [] then text else join_sp (map seg_text adjustedSegments)),
           n_segments = adjustedSegments,
           n_language = language \<rparr>)"

text \<open>
  One round of the loop of \<^verbatim>\<open>_deduplicateSegments\<close>: \<open>result\<close> is the list kept so
  far (never empty inside the loop), \<open>current\<close> is \<^verbatim>\<open>segments[i]\<close>. The source
  updates the last kept object in place; here the last element is replaced.
\<close>

definition dedup_step :: "segment \<Rightarrow> segment list \<Rightarrow> segment list" where
  "dedup_step current result =
     (let previous = last result in
      if seg_start current < seg_end previous then
        (if seg_end current > seg_end previous then
           (let extended = previous\<lparr> seg_end := seg_end current \<rparr>;
                appended =
                  (if seg_text current \<noteq> [] \<and> \<not> str_includes (seg_text extended) (seg_text current)
                   then extended\<lparr> seg_text := seg_text extended @ '' '' @ seg_text current \<rparr>
                   else extended)
            in butlast result @ [appended])
         else result)
      else result @ [current])"

definition deduplicateSegments :: "segment list \<Rightarrow> segment list" where
  "deduplicateSegments segments =
     (case segments of [] \<Rightarrow> [] | s # rest \<Rightarrow> fold dedup_step rest [s])"

definition combineText :: "segment list \<Rightarrow> string" where
  "combineText segments =
     (if segments = [] then []
      else trim (collapse_ws (join_sp (filter (\<lambda>t. trim t \<noteq> []) (map seg_text segments)))))"

definition createEmptyTranscript :: merged where
  "createEmptyTranscript =
     \<lparr> m_text = [], m_segments = [], m_language = ''unknown'', m_duration = 0,
       m_chunkCount = 0, m_segmentCount = 0 \<rparr>"

text \<open>
  \<^verbatim>\<open>normalized.find(t => t.language)?.language || 'unknown'\<close>: the language of the first
  normalised transcript whose language is a non-empty string.
\<close>

definition find_language :: "normalized list \<Rightarrow> string" where
  "find_language ns =
     (case List.find (\<lambda>t. n_language t \<noteq> []) ns of
        None \<Rightarrow> ''unknown''
      | Some t \<Rightarrow> str_or (Some (n_language t)) ''unknown'')"

text \<open>
  \<^verbatim>\<open>merge(chunkTranscripts, chunkDuration)\<close>. The sort of the source is
  \<^verbatim>\<open>Array.prototype.sort\<close> with the comparator \<^verbatim>\<open>a.start - b.start\<close>, a stable sort
  on the start time; \<open>sort_key\<close> is stable as well.
\<close>

definition merge :: "transcript list \<Rightarrow> real \<Rightarrow> merged" where
  "merge chunkTranscripts chunkDuration =
     (if chunkTranscripts = [] then createEmptyTranscript
      else
        let normalized = map (\<lambda>(index, t). normalizeTranscript t (real index * chunkDuration))
                           (enumerate 0 chunkTranscripts);
            allSegments = concat (map n_segments normalized);
            sorted_segments = sort_key seg_start allSegments;
            deduplicated = deduplicateSegments sorted_segments;
            fullText = combineText deduplicated;
            language = find_language normalized;
            duration = (if deduplicated \<noteq> [] then seg_end (last deduplicated) else 0)
        in \<lparr> m_text = fullText, m_segments = deduplicated, m_language = language,
             m_duration = duration, m_chunkCount = length chunkTranscripts,
             m_segmentCount = length deduplicated \<rparr>)"

section \<open>Errors\<close>

text \<open>
  What the source throws: its own two errors, a \<^verbatim>\<open>TypeError\<close> of the runtime, and
  the errors of the collaborators (file system, child processes, network), which carry
  a message.
\<close>

datatype error =
    AlreadyInProgress
  | NoApiKeys
  | TypeError
  | External string

section \<open>Speech-to-text workers\<close>

text \<open>
  A transcript as a worker hands it on. By the contract of both engines the segments
  carry numeric \<open>start\<close> and \<open>end\<close>; the other properties may be missing.
\<close>

record wsegment =
  ws_id :: "int option"
  ws_start :: real
  ws_end :: real
  ws_text :: "string option"

record wtranscript =
  wt_text :: "string option"
  wt_language :: "string option"
  wt_segments :: "wsegment list"

text \<open>The same object seen through the merger's eyes.\<close>

definition as_in_segment :: "wsegment \<Rightarrow> in_segment" where
  "as_in_segment s =
     \<lparr> in_id = ws_id s, in_start = Some (ws_start s), in_end = Some (ws_end s),
       in_text = ws_text s, in_words = None \<rparr>"

definition as_transcript :: "wtranscript \<Rightarrow> transcript" where
  "as_transcript t = TObject (Some (map as_in_segment (wt_segments t))) (wt_text t) (wt_language t)"

text \<open>
  \<^verbatim>\<open>_adjustTimestamps(transcript, offsetSeconds)\<close>, the same function in
  \<^verbatim>\<open>ChunkProcessor\<close> and in \<^verbatim>\<open>WhisperProcessor\<close> (whose guard on missing segments
  never fires on a \<open>wtranscript\<close>).
\<close>

definition adjustTimestamps :: "wtranscript \<Rightarrow> real \<Rightarrow> wtranscript" where
  "adjustTimestamps t offsetSeconds =
     t\<lparr> wt_segments :=
          map (\<lambda>segment. segment\<lparr> ws_start := ws_start segment + offsetSeconds,
                                   ws_end := ws_end segment + offsetSeconds \<rparr>)
            (wt_segments t) \<rparr>"

subsection \<open>Local worker (class ChunkProcessor, in unnamed/part_011)\<close>

record chunk_processor =
  cp_chunkDuration :: real

text \<open>
  \<^verbatim>\<open>processChunk(chunkPath, chunkIndex)\<close>. The run of the engine on a chunk file is the
  parameter \<open>run\<close>: \<open>Inl\<close> stands for every rejection before the adjustment (non-zero
  exit code, no output, output that does not parse or has no segments, spawn failure),
  \<open>Inr\<close> for the parsed result.
\<close>

definition cp_processChunk ::
  "(string \<Rightarrow> string + wtranscript) \<Rightarrow> chunk_processor \<Rightarrow> string \<Rightarrow> nat \<Rightarrow> error + wtranscript" where
  "cp_processChunk run cp chunkPath chunkIndex =
     (let chunkStartTime = real chunkIndex * cp_chunkDuration cp in
      case run chunkPath of
        Inl msg \<Rightarrow> Inl (External msg)
      | Inr result \<Rightarrow> Inr (adjustTimestamps result chunkStartTime))"

subsection \<open>Remote worker pool (class GroqProcessor, in whisper-processor.js)\<close>

record groq_processor =
  apiKeys :: "string list"
  currentKeyIndex :: nat
  maxConcurrent :: nat
  maxRetries :: nat

text \<open>The constructor: \<^verbatim>\<open>options.maxConcurrent || 5\<close>, \<^verbatim>\<open>options.maxRetries || 3\<close>.\<close>

definition nat_or :: "nat option \<Rightarrow> nat \<Rightarrow> nat" where
  "nat_or x d = (case x of None \<Rightarrow> d | Some n \<Rightarrow> if n = 0 then d else n)"

definition new_GroqProcessor :: "string list \<Rightarrow> nat option \<Rightarrow> nat option \<Rightarrow> groq_processor" where
  "new_GroqProcessor keys optMaxConcurrent optMaxRetries =
     \<lparr> apiKeys = keys, currentKeyIndex = 0,
       maxConcurrent = nat_or optMaxConcurrent 5, maxRetries = nat_or optMaxRetries 3 \<rparr>"

definition getNextApiKey :: "groq_processor \<Rightarrow> error + (string \<times> groq_processor)" where
  "getNextApiKey g =
     (if length (apiKeys g) = 0 then Inl NoApiKeys
      else let key = apiKeys g ! currentKeyIndex g
           in Inr (key, g\<lparr> currentKeyIndex := (currentKeyIndex g + 1) mod length (apiKeys g) \<rparr>))"

text \<open>The body of a response of the remote API, every property optional.\<close>

record groq_result =
  gr_text :: "string option"
  gr_language :: "string option"
  gr_segments :: "in_segment list option"

definition convertGroqFormat :: "groq_result \<Rightarrow> wtranscript" where
  "convertGroqFormat groqResult =
     \<lparr> wt_text = Some (str_or (gr_text groqResult) []),
       wt_language = Some (str_or (gr_language groqResult) ''unknown''),
       wt_segments =
         (case gr_segments groqResult of
            None \<Rightarrow> []
          | Some segs \<Rightarrow>
              map (\<lambda>seg. \<lparr> ws_id = Some (case in_id seg of None \<Rightarrow> 0 | Some i \<Rightarrow> i),
                            ws_start = num_or0 (in_start seg),
                            ws_end = num_or0 (in_end seg),
                            ws_text = Some (str_or (in_text seg) []) \<rparr>) segs) \<rparr>"

text \<open>
  One request of \<^verbatim>\<open>_transcribeChunk(chunkPath, apiKey)\<close> is answered by the parameter
  \<open>api\<close>, which may depend on the chunk, the key and the number of the attempt:
  \<open>Inl\<close> for every rejection (missing or empty file, status 429, any other status, a
  body that does not parse, a network error), \<open>Inr\<close> for the parsed body of a 200.
\<close>

type_synonym groq_api = "string \<Rightarrow> string \<Rightarrow> nat \<Rightarrow> string + groq_result"

definition transcribeChunk :: "groq_api \<Rightarrow> string \<Rightarrow> string \<Rightarrow> nat \<Rightarrow> error + wtranscript" where
  "transcribeChunk api chunkPath apiKey attempt =
     (case api chunkPath apiKey attempt of
        Inl msg \<Rightarrow> Inl (External msg)
      | Inr body \<Rightarrow> Inr (convertGroqFormat body))"

text \<open>
  A call \<^verbatim>\<open>_transcribeWithRetry(chunkPath, apiKey, chunkIndex, retryCount)\<close> that has sent
  its request and waits for the answer: the arguments of the call.
\<close>

record request =
  rq_index :: nat
  rq_path :: string
  rq_key :: string
  rq_retry :: nat

text \<open>
  \<^verbatim>\<open>processChunk(chunkPath, chunkIndex)\<close> up to its first \<^verbatim>\<open>await\<close>: it takes the next
  key and \<^verbatim>\<open>_transcribeWithRetry\<close> sends the first request at once. Without keys the
  promise is rejected.
\<close>

definition groq_processChunk ::
  "string \<Rightarrow> nat \<Rightarrow> groq_processor \<Rightarrow> (error + request) \<times> groq_processor" where
  "groq_processChunk chunkPath chunkIndex g =
     (case getNextApiKey g of
        Inl e \<Rightarrow> (Inl e, g)
      | Inr (apiKey, g') \<Rightarrow>
          (Inr \<lparr> rq_index = chunkIndex, rq_path = chunkPath, rq_key = apiKey, rq_retry = 0 \<rparr>, g'))"

text \<open>
  \<^verbatim>\<open>_transcribeWithRetry\<close> from the moment the answer to its request arrives, that is,
  after its \<^verbatim>\<open>await\<close>: a result ends the chunk; a failure ends it when the retries are
  used up or there is one key only; otherwise \<^verbatim>\<open>this.getNextApiKey()\<close> reads the cursor
  as it stands at this moment (the other chunks of the batch share it and may have moved
  it since the request was sent) and the recursive call sends the next request at once.
\<close>

datatype attempt_end = Finished "error + wtranscript" | Retried request

definition transcribeWithRetry ::
  "groq_api \<Rightarrow> request \<Rightarrow> groq_processor \<Rightarrow> attempt_end \<times> groq_processor" where
  "transcribeWithRetry api rq g =
     (case transcribeChunk api (rq_path rq) (rq_key rq) (rq_retry rq) of
        Inr t \<Rightarrow> (Finished (Inr t), g)
      | Inl e \<Rightarrow>
          if rq_retry rq < maxRetries g \<and> length (apiKeys g) > 1 then
            (case getNextApiKey g of
               Inl e' \<Rightarrow> (Finished (Inl e'), g)
             | Inr (nextKey, g') \<Rightarrow>
                 (Retried (rq\<lparr> rq_key := nextKey, rq_retry := rq_retry rq + 1 \<rparr>), g'))
          else (Finished (Inl e), g))"

text \<open>
  The callback of \<^verbatim>\<open>batch.map\<close> runs for every chunk of the batch before any answer is
  looked at: the first keys are taken in index order and the first requests are in
  flight. The result holds the requests in flight and the chunks rejected at once.
\<close>

fun dispatchBatch ::
  "nat \<Rightarrow> string list \<Rightarrow> groq_processor
     \<Rightarrow> request list \<times> (nat \<times> (error + wtranscript)) list \<times> groq_processor" where
  "dispatchBatch chunkIndex [] g = ([], [], g)"
| "dispatchBatch chunkIndex (chunkPath # rest) g =
     (case groq_processChunk chunkPath chunkIndex g of
        (Inl e, g1) \<Rightarrow>
          (case dispatchBatch (chunkIndex + 1) rest g1 of
             (pending, items, g') \<Rightarrow> (pending, (chunkIndex, Inl e) # items, g'))
      | (Inr rq, g1) \<Rightarrow>
          (case dispatchBatch (chunkIndex + 1) rest g1 of
             (pending, items, g') \<Rightarrow> (rq # pending, items, g')))"

text \<open>
  While \<^verbatim>\<open>Promise.all\<close> waits, the answers arrive in an order the program does not
  control: \<open>order\<close> says which of the requests in flight is answered next (a position in
  the list, taken modulo its length). The answer is handled by \<open>transcribeWithRetry\<close>, which
  ends the chunk or puts its next request in flight. \<open>sent\<close> lists the requests of the
  batch in the order they were sent. Every step removes a request from the list or raises
  the retry count of one, so the list never comes back to an earlier value, and every
  sequence of arrivals is the run of some \<open>order\<close>.
\<close>

function completeBatch ::
  "groq_api \<Rightarrow> (request list \<Rightarrow> nat) \<Rightarrow> request list \<Rightarrow> (nat \<times> (error + wtranscript)) list
     \<Rightarrow> groq_processor \<Rightarrow> request list
     \<Rightarrow> (nat \<times> (error + wtranscript)) list \<times> groq_processor \<times> request list" where
  "completeBatch api order pending items g sent =
     (if pending = [] then (items, g, sent)
      else
        (let n = order pending mod length pending; rq = pending ! n in
         case transcribeWithRetry api rq g of
           (Finished res, g') \<Rightarrow>
             completeBatch api order (take n pending @ drop (Suc n) pending)
               (items @ [(rq_index rq, res)]) g' sent
         | (Retried rq', g') \<Rightarrow>
             completeBatch api order (take n pending @ rq' # drop (Suc n) pending)
               items g' (sent @ [rq'])))"
  by pat_completeness auto
termination
proof (relation "measure (\<lambda>(api, order, pending, items, g, sent).
          sum_list (map (\<lambda>r. Suc (maxRetries g - rq_retry r)) pending))", goal_cases)
  case 1
  show ?case by simp
next
  case (2 api order pending items g sent n rq pair g' res)
  let ?f = "\<lambda>r. Suc (maxRetries g - rq_retry r)"
  have n: "n < length pending" using 2(1,2) by simp
  have same: "maxRetries g' = maxRetries g"
    using 2(4,5) by (auto simp: transcribeWithRetry_def getNextApiKey_def Let_def split: sum.splits if_splits)
  have "sum_list (map ?f (take n pending @ pending ! n # drop (Suc n) pending)) =
      sum_list (map ?f pending)"
    by (simp only: id_take_nth_drop [OF n, symmetric])
  then have "sum_list (map ?f pending) =
      sum_list (map ?f (take n pending @ drop (Suc n) pending)) + ?f (pending ! n)"
    by simp
  then show ?case using same by simp
next
  case (3 api order pending items g sent n rq pair g' rq')
  let ?f = "\<lambda>r. Suc (maxRetries g - rq_retry r)"
  have n: "n < length pending" using 3(1,2) by simp
  have step: "maxRetries g' = maxRetries g \<and> rq_retry rq' = Suc (rq_retry rq) \<and> rq_retry rq < maxRetries g"
    using 3(4,5) by (auto simp: transcribeWithRetry_def getNextApiKey_def Let_def split: sum.splits if_splits)
  have "sum_list (map ?f (take n pending @ pending ! n # drop (Suc n) pending)) =
      sum_list (map ?f pending)"
    by (simp only: id_take_nth_drop [OF n, symmetric])
  then have "sum_list (map ?f pending) =
      sum_list (map ?f (take n pending)) + ?f (pending ! n) + sum_list (map ?f (drop (Suc n) pending))"
    by simp
  moreover have "?f rq' < ?f (pending ! n)"
    using step 3(3) by auto
  ultimately show ?case using step by simp
qed

text \<open>
  One batch of \<^verbatim>\<open>processChunksParallel\<close>: the dispatch, the wait, and the results of
  \<^verbatim>\<open>Promise.all\<close> in the order of the chunks. The requests sent are returned as well.
\<close>

definition processBatch ::
  "groq_api \<Rightarrow> (request list \<Rightarrow> nat) \<Rightarrow> nat \<Rightarrow> string list \<Rightarrow> groq_processor
     \<Rightarrow> (nat \<times> (error + wtranscript)) list \<times> groq_processor \<times> request list" where
  "processBatch api order chunkIndex batch g =
     (case dispatchBatch chunkIndex batch g of
        (pending, rejected, g1) \<Rightarrow>
          (case completeBatch api order pending rejected g1 pending of
             (items, g', sent) \<Rightarrow> (sort_key fst items, g', sent)))"

text \<open>\<^verbatim>\<open>results[item.index] = item.result\<close> for the items without error.\<close>

definition storeResults ::
  "(nat \<times> (error + wtranscript)) list \<Rightarrow> (nat \<rightharpoonup> wtranscript) \<Rightarrow> (nat \<rightharpoonup> wtranscript)" where
  "storeResults batchResults results =
     fold (\<lambda>(index, r) res. case r of Inl e \<Rightarrow> res | Inr t \<Rightarrow> res(index \<mapsto> t)) batchResults results"

text \<open>
  The loop \<^verbatim>\<open>for (let i = 0; i < chunkPaths.length; i += this.maxConcurrent)\<close>. It does
  not end when \<open>maxConcurrent\<close> is 0, which is the value \<open>None\<close> here.
\<close>

partial_function (option) processBatches ::
  "groq_api \<Rightarrow> (request list \<Rightarrow> nat) \<Rightarrow> string list \<Rightarrow> nat \<Rightarrow> (nat \<rightharpoonup> wtranscript)
     \<Rightarrow> groq_processor \<Rightarrow> ((nat \<rightharpoonup> wtranscript) \<times> groq_processor) option" where
  "processBatches api order chunkPaths i results g =
     (if i < length chunkPaths then
        (case processBatch api order i (take (maxConcurrent g) (drop i chunkPaths)) g of
           (batchResults, g', sent) \<Rightarrow>
             processBatches api order chunkPaths (i + maxConcurrent g)
               (storeResults batchResults results) g')
      else Some (results, g))"

text \<open>\<^verbatim>\<open>results.filter(r => r !== undefined)\<close> visits the indices in ascending order.\<close>

definition processChunksParallel ::
  "groq_api \<Rightarrow> (request list \<Rightarrow> nat) \<Rightarrow> string list \<Rightarrow> groq_processor
     \<Rightarrow> (wtranscript list \<times> groq_processor) option" where
  "processChunksParallel api order chunkPaths g =
     (case processBatches api order chunkPaths 0 Map.empty g of
        None \<Rightarrow> None
      | Some (results, g') \<Rightarrow>
          Some (List.map_filter results [0 ..< length chunkPaths], g'))"

section \<open>Transcription Orchestrator (class WhisperProcessor, in whisper-processor.js)\<close>

record options =
  opt_chunkDuration :: "real option"
  opt_useGroq :: "bool option"
  opt_groqApiKeys :: "string list option"
  opt_groqMaxConcurrent :: "nat option"

record job =
  job_audioPath :: string
  job_outputDir :: string
  job_startTime :: int

record whisper_processor =
  chunkDuration :: real
  useGroq :: bool
  groqApiKeys :: "string list"
  groqProcessor :: "groq_processor option"
  chunkProcessor :: "chunk_processor option"
  isProcessing :: bool
  currentJob :: "job option"

definition real_or :: "real option \<Rightarrow> real \<Rightarrow> real" where
  "real_or x d = (case x of None \<Rightarrow> d | Some v \<Rightarrow> if v = 0 then d else v)"

definition new_WhisperProcessor :: "options \<Rightarrow> whisper_processor" where
  "new_WhisperProcessor opts =
     (let cd = real_or (opt_chunkDuration opts) 60;
          ug = (case opt_useGroq opts of None \<Rightarrow> False | Some b \<Rightarrow> b);
          keys = (case opt_groqApiKeys opts of None \<Rightarrow> [] | Some ks \<Rightarrow> ks);
          groq = ug \<and> length keys > 0
      in \<lparr> chunkDuration = cd, useGroq = ug, groqApiKeys = keys,
           groqProcessor =
             (if groq then Some (new_GroqProcessor keys (Some (nat_or (opt_groqMaxConcurrent opts) 5)) None)
              else None),
           chunkProcessor =
             (if groq then None else Some \<lparr> cp_chunkDuration = real_or (Some cd) 60 \<rparr>),
           isProcessing = False, currentJob = None \<rparr>)"

text \<open>
  What the world answers during one call of \<^verbatim>\<open>processAudio\<close>: the clock, the
  creation of the temporary directory and the two writes (\<open>Some\<close> is the message of the
  error thrown), the split (the chunk files, sorted), the engine runs, the order in which
  the answers of the remote API arrive, and an exception that escapes the parallel
  dispatch, if any.
\<close>

record world =
  w_now :: int
  w_mkdir :: "string option"
  w_split :: "string + string list"
  w_whisper :: "string \<Rightarrow> string + wtranscript"
  w_groq :: groq_api
  w_order :: "request list \<Rightarrow> nat"
  w_dispatch_error :: "string option"
  w_write :: "string \<Rightarrow> string option"

record job_result =
  transcriptPath :: string
  textPath :: string
  transcript_of :: merged

text \<open>\<^verbatim>\<open>path.join(dir, name)\<close> for a plain file name.\<close>

definition path_join :: "string \<Rightarrow> string \<Rightarrow> string" where
  "path_join dir name = dir @ ''/'' @ name"

text \<open>
  The sequential loop over the chunks. A chunk that fails is skipped; without a local
  worker (the pool was configured) every call is a \<^verbatim>\<open>TypeError\<close>, caught like any
  other failure. Deleting the chunk file changes none of the values.
\<close>

fun localDispatch ::
  "(string \<Rightarrow> string + wtranscript) \<Rightarrow> chunk_processor option \<Rightarrow> nat \<Rightarrow> string list
     \<Rightarrow> wtranscript list \<Rightarrow> wtranscript list" where
  "localDispatch run cp i [] transcripts = transcripts"
| "localDispatch run cp i (chunk # rest) transcripts =
     (case (case cp of None \<Rightarrow> Inl TypeError | Some p \<Rightarrow> cp_processChunk run p chunk i) of
        Inr t \<Rightarrow> localDispatch run cp (i + 1) rest (transcripts @ [t])
      | Inl e \<Rightarrow> localDispatch run cp (i + 1) rest transcripts)"

text \<open>The loop over \<^verbatim>\<open>groqTranscripts\<close>: the offset is taken from the position in that array.\<close>

definition adjustGroqTranscripts :: "real \<Rightarrow> wtranscript list \<Rightarrow> wtranscript list" where
  "adjustGroqTranscripts cd groqTranscripts =
     map (\<lambda>(i, t). adjustTimestamps t (real i * cd)) (enumerate 0 groqTranscripts)"

text \<open>
  The \<^verbatim>\<open>try\<close> block of \<^verbatim>\<open>processAudio\<close>; \<open>Inl\<close> is the error it throws, \<open>None\<close> a
  dispatch that never returns. Of the two files written only the success of the write is
  modelled, not the contents. In the source nothing lets an exception escape
  \<^verbatim>\<open>processChunksParallel\<close> (every failure of a chunk is caught inside it); the handler
  that switches the pool off for good is reached through \<open>w_dispatch_error\<close> only.
\<close>

definition processAudio_try ::
  "world \<Rightarrow> string \<Rightarrow> string \<Rightarrow> whisper_processor
     \<Rightarrow> ((error + job_result) \<times> whisper_processor) option" where
  "processAudio_try w audioPath outputDir wp =
     (case w_mkdir w of
        Some msg \<Rightarrow> Some (Inl (External msg), wp)
      | None \<Rightarrow>
     (case w_split w of
        Inl msg \<Rightarrow> Some (Inl (External msg), wp)
      | Inr chunks \<Rightarrow>
     (case
        (if useGroq wp \<and> groqProcessor wp \<noteq> None \<and> length (apiKeys (the (groqProcessor wp))) > 0 then
           (case w_dispatch_error w of
              Some msg \<Rightarrow> Some ([], wp\<lparr> useGroq := False \<rparr>)
            | None \<Rightarrow>
                (case processChunksParallel (w_groq w) (w_order w) chunks (the (groqProcessor wp)) of
                   None \<Rightarrow> None
                 | Some (groqTranscripts, g') \<Rightarrow>
                     Some (adjustGroqTranscripts (chunkDuration wp) groqTranscripts,
                           wp\<lparr> groqProcessor := Some g' \<rparr>)))
         else Some ([], wp)) of
        None \<Rightarrow> None
      | Some (transcripts1, wp1) \<Rightarrow>
          (let transcripts =
                 (if \<not> useGroq wp1 \<or> groqProcessor wp1 = None
                       \<or> length (apiKeys (the (groqProcessor wp1))) = 0
                  then localDispatch (w_whisper w) (chunkProcessor wp1) 0 chunks transcripts1
                  else transcripts1);
               merged = merge (map as_transcript transcripts) (chunkDuration wp1);
               transcriptPath = path_join outputDir ''transcript.json'';
               textPath = path_join outputDir ''transcript.txt''
           in case w_write w transcriptPath of
                Some msg \<Rightarrow> Some (Inl (External msg), wp1)
              | None \<Rightarrow>
                  (case w_write w textPath of
                     Some msg \<Rightarrow> Some (Inl (External msg), wp1)
                   | None \<Rightarrow>
                       Some (Inr \<lparr> transcriptPath = transcriptPath, textPath = textPath,
                                   transcript_of = merged \<rparr>, wp1))))))"

text \<open>
  \<^verbatim>\<open>processAudio(audioPath, outputDir)\<close>: the guard, the job slot, the \<^verbatim>\<open>try\<close> block and
  the \<^verbatim>\<open>finally\<close> block. The \<^verbatim>\<open>catch\<close> block re-throws what it caught.
\<close>

definition processAudio ::
  "world \<Rightarrow> string \<Rightarrow> string \<Rightarrow> whisper_processor
     \<Rightarrow> ((error + job_result) \<times> whisper_processor) option" where
  "processAudio w audioPath outputDir wp =
     (if isProcessing wp then Some (Inl AlreadyInProgress, wp)
      else
        (case processAudio_try w audioPath outputDir
                (wp\<lparr> isProcessing := True,
                     currentJob := Some \<lparr> job_audioPath = audioPath, job_outputDir = outputDir,
                                          job_startTime = w_now w \<rparr> \<rparr>) of
           None \<Rightarrow> None
         | Some (r, wp') \<Rightarrow> Some (r, wp'\<lparr> isProcessing := False, currentJob := None \<rparr>)))"

text \<open>Calls of \<^verbatim>\<open>processAudio\<close> one after the other, each awaited before the next.\<close>

fun run_jobs ::
  "(world \<times> string \<times> string) list \<Rightarrow> whisper_processor
     \<Rightarrow> ((error + job_result) list \<times> whisper_processor) option" where
  "run_jobs [] wp = Some ([], wp)"
| "run_jobs ((w, audioPath, outputDir) # rest) wp =
     (case processAudio w audioPath outputDir wp of
        None \<Rightarrow> None
      | Some (r, wp') \<Rightarrow>
          (case run_jobs rest wp' of
             None \<Rightarrow> None
           | Some (rs, wp'') \<Rightarrow> Some (r # rs, wp'')))"

section \<open>Capture Process Adapter (class FFmpegRecorder, in unnamed/part_009)\<close>

text \<open>
  Of the adapter only what the controller depends on is modelled: whether it is
  recording, whether it holds a child process, and how a stop ends. Errors of the
  recording side are the messages of the \<^verbatim>\<open>Error\<close> objects thrown.
\<close>

record recorder =
  r_isRecording :: bool
  r_process :: bool
  r_outputPath :: "string option"

definition new_FFmpegRecorder :: recorder where
  "new_FFmpegRecorder = \<lparr> r_isRecording = False, r_process = False, r_outputPath = None \<rparr>"

text \<open>\<^verbatim>\<open>!x\<close> on a string that may be undefined.\<close>

definition missing :: "string option \<Rightarrow> bool" where
  "missing x = (x = None \<or> x = Some [])"

record start_options =
  so_mode :: "string option"
  so_micDevice :: "string option"
  so_loopbackDevice :: "string option"
  so_outputPath :: "string option"

text \<open>
  \<^verbatim>\<open>FFmpegRecorder.startRecording\<close>: \<open>Some\<close> is the message of the error thrown. The
  flag is set before the devices are validated. Spawning the process does not throw.
\<close>

definition rec_startRecording :: "start_options \<Rightarrow> recorder \<Rightarrow> string option \<times> recorder" where
  "rec_startRecording opts r =
     (let mode = (case so_mode opts of None \<Rightarrow> ''both'' | Some m \<Rightarrow> m) in
      if r_isRecording r then (Some ''Recording already in progress'', r)
      else
        let r1 = r\<lparr> r_outputPath := so_outputPath opts, r_isRecording := True \<rparr> in
        if mode = ''mic'' \<and> missing (so_micDevice opts)
          then (Some ''Microphone device required for mic-only recording'', r1)
        else if mode = ''system'' \<and> missing (so_loopbackDevice opts)
          then (Some ''Loopback device required for system-only recording'', r1)
        else if mode = ''both'' \<and> (missing (so_micDevice opts) \<or> missing (so_loopbackDevice opts))
          then (Some ''Both microphone and loopback devices required for mixed recording'', r1)
        else (None, r1\<lparr> r_process := True \<rparr>))"

text \<open>
  How the wait in \<^verbatim>\<open>FFmpegRecorder.stopRecording\<close> ends: the process exits (its exit
  handler clears the flag and the handle), the five seconds pass first (the process is
  killed, its exit has not been seen yet), or sending the signal throws.
\<close>

datatype stop_outcome = Exited | TimedOut | StopThrows string

record stop_info =
  st_success :: bool
  st_error :: "string option"
  st_forced :: bool

definition rec_stopRecording :: "stop_outcome \<Rightarrow> recorder \<Rightarrow> (string + stop_info) \<times> recorder" where
  "rec_stopRecording outcome r =
     (if \<not> r_isRecording r then
        (Inr \<lparr> st_success = False, st_error = Some ''No recording in progress'', st_forced = False \<rparr>, r)
      else if \<not> r_process r then
        (Inr \<lparr> st_success = False, st_error = Some ''No recording process found'', st_forced = False \<rparr>,
         r\<lparr> r_isRecording := False \<rparr>)
      else
        (case outcome of
           StopThrows msg \<Rightarrow> (Inl msg, r)
         | Exited \<Rightarrow>
             (Inr \<lparr> st_success = True, st_error = None, st_forced = False \<rparr>,
              r\<lparr> r_isRecording := False, r_process := False \<rparr>)
         | TimedOut \<Rightarrow>
             (Inr \<lparr> st_success = True, st_error = None, st_forced = True \<rparr>, r)))"

section \<open>Recording Session Controller (class RecordingManager, in unnamed/part_009)\<close>

record gap =
  gap_start :: int
  gap_end :: "int option"
  gap_duration :: "int option"

record rec_segment =
  rs_path :: string
  rs_startTime :: int

record recording =
  rec_startTime :: int
  rec_outputPath :: string
  rec_mode :: string
  rec_micDevice :: "string option"
  rec_loopbackDevice :: "string option"
  rec_gaps :: "gap list"
  rec_segments :: "rec_segment list"

record recording_manager =
  recorder :: recorder
  currentRecording :: "recording option"
  isPaused :: bool
  pauseStartTime :: "int option"

definition new_RecordingManager :: recording_manager where
  "new_RecordingManager =
     \<lparr> recorder = new_FFmpegRecorder, currentRecording = None, isPaused = False,
       pauseStartTime = None \<rparr>"

text \<open>
  \<^verbatim>\<open>startRecording(options)\<close>; \<open>now1\<close> and \<open>now2\<close> are its two readings of the clock.
  \<open>Some\<close> is the message of the error thrown.
\<close>

definition mgr_startRecording ::
  "start_options \<Rightarrow> int \<Rightarrow> int \<Rightarrow> recording_manager \<Rightarrow> string option \<times> recording_manager" where
  "mgr_startRecording opts now1 now2 m =
     (if currentRecording m \<noteq> None then (Some ''Recording already in progress'', m)
      else
        let mode = str_or (so_mode opts) ''both'' in
        if missing (so_outputPath opts) then (Some ''Missing output path'', m)
        else if mode = ''mic'' \<and> missing (so_micDevice opts)
          then (Some ''Microphone device required for mic-only recording'', m)
        else if mode = ''system'' \<and> missing (so_loopbackDevice opts)
          then (Some ''Loopback device required for system-only recording'', m)
        else if mode = ''both'' \<and> (missing (so_micDevice opts) \<or> missing (so_loopbackDevice opts))
          then (Some ''Both microphone and loopback devices required for mixed recording'', m)
        else
          let outputPath = the (so_outputPath opts);
              m1 = m\<lparr> currentRecording := Some
                     \<lparr> rec_startTime = now1, rec_outputPath = outputPath,
                       rec_mode = str_or (so_mode opts) ''both'',
                       rec_micDevice = so_micDevice opts,
                       rec_loopbackDevice = so_loopbackDevice opts,
                       rec_gaps = [],
                       rec_segments = [\<lparr> rs_path = outputPath, rs_startTime = now2 \<rparr>] \<rparr>,
                     isPaused := False, pauseStartTime := None \<rparr>
          in case rec_startRecording opts (recorder m1) of
               (None, r') \<Rightarrow> (None, m1\<lparr> recorder := r' \<rparr>)
             | (Some msg, r') \<Rightarrow> (Some msg, m1\<lparr> recorder := r', currentRecording := None \<rparr>))"

text \<open>The result objects \<^verbatim>\<open>{ success: true }\<close> and \<^verbatim>\<open>{ success: false, error }\<close>.\<close>

datatype op_result = Success | Failure string

text \<open>\<^verbatim>\<open>pauseRecording()\<close>; \<open>now\<close> is the clock read after the adapter has stopped.\<close>

definition mgr_pauseRecording ::
  "stop_outcome \<Rightarrow> int \<Rightarrow> recording_manager \<Rightarrow> op_result \<times> recording_manager" where
  "mgr_pauseRecording outcome now m =
     (case currentRecording m of
        None \<Rightarrow> (Failure ''No recording in progress'', m)
      | Some cur \<Rightarrow>
          if isPaused m then (Failure ''Recording is already paused'', m)
          else
            (case rec_stopRecording outcome (recorder m) of
               (Inl msg, r') \<Rightarrow> (Failure msg, m\<lparr> recorder := r' \<rparr>)
             | (Inr info, r') \<Rightarrow>
                 (Success,
                  m\<lparr> recorder := r', isPaused := True, pauseStartTime := Some now,
                     currentRecording := Some
                       (cur\<lparr> rec_gaps := rec_gaps cur @
                               [\<lparr> gap_start = now, gap_end = None, gap_duration = None \<rparr>] \<rparr>) \<rparr>)))"

text \<open>
  \<^verbatim>\<open>resumeRecording()\<close>. \<open>resumeTime\<close> and \<open>now2\<close> are its two readings of the clock;
  \<open>segmentPath\<close> stands for the path arithmetic of Node's \<^verbatim>\<open>path\<close> module, from the
  output path and the index of the new segment to the name of its file. In
  \<^verbatim>\<open>resumeTime - this.pauseStartTime\<close> a \<^verbatim>\<open>null\<close> counts as 0.
\<close>

definition mgr_resumeRecording ::
  "(string \<Rightarrow> nat \<Rightarrow> string) \<Rightarrow> int \<Rightarrow> int \<Rightarrow> recording_manager
     \<Rightarrow> op_result \<times> recording_manager" where
  "mgr_resumeRecording segmentPath resumeTime now2 m =
     (case currentRecording m of
        None \<Rightarrow> (Failure ''No recording to resume'', m)
      | Some cur \<Rightarrow>
          if \<not> isPaused m then (Failure ''Recording is not paused'', m)
          else
           (let pauseDuration = resumeTime - (case pauseStartTime m of None \<Rightarrow> 0 | Some p \<Rightarrow> p);
                gaps' = (if length (rec_gaps cur) > 0
                         then butlast (rec_gaps cur) @
                                [(last (rec_gaps cur))\<lparr> gap_end := Some resumeTime,
                                                         gap_duration := Some pauseDuration \<rparr>]
                         else rec_gaps cur);
                segmentIndex = length (rec_segments cur) + 1;
                path = segmentPath (rec_outputPath cur) segmentIndex;
                cur' = cur\<lparr> rec_gaps := gaps',
                            rec_segments := rec_segments cur @
                              [\<lparr> rs_path = path, rs_startTime = now2 \<rparr>] \<rparr>;
                m1 = m\<lparr> currentRecording := Some cur' \<rparr>
            in (case rec_startRecording
                       \<lparr> so_mode = Some (str_or (Some (rec_mode cur')) ''both''),
                         so_micDevice = rec_micDevice cur',
                         so_loopbackDevice = rec_loopbackDevice cur',
                         so_outputPath = Some path \<rparr> (recorder m1) of
                  (Some msg, r') \<Rightarrow> (Failure msg, m1\<lparr> recorder := r' \<rparr>)
                | (None, r') \<Rightarrow>
                    (Success, m1\<lparr> recorder := r', isPaused := False, pauseStartTime := None \<rparr>))))"

subsection \<open>Segment Concatenator (\<^verbatim>\<open>_mergeSegments\<close>)\<close>

text \<open>
  The files are a set of paths. What the world answers: the write of the list file
  (\<open>Some\<close> is the message of its error), the run of the concatenating process (it
  cannot be spawned, or it exits with a code and an error output), and which files
  \<^verbatim>\<open>fs.unlink\<close> manages to delete. \<open>dirname\<close> is \<^verbatim>\<open>path.dirname\<close>.
\<close>

datatype concat_outcome = SpawnError string | Exit int string

record concat_world =
  cw_dirname :: "string \<Rightarrow> string"
  cw_writeList :: "string option"
  cw_ffmpeg :: concat_outcome
  cw_unlink_ok :: "string \<Rightarrow> bool"

definition unlink :: "concat_world \<Rightarrow> string \<Rightarrow> string set \<Rightarrow> string set" where
  "unlink cw p files = (if cw_unlink_ok cw p then files - {p} else files)"

text \<open>
  \<^verbatim>\<open>_mergeSegments(segments, outputPath)\<close>: \<open>Some\<close> is the message of the error it
  rejects with. The handler of the process's exit deletes the list file and the
  segments from the second on, and only then looks at the exit code.
\<close>

definition mergeSegments ::
  "concat_world \<Rightarrow> rec_segment list \<Rightarrow> string \<Rightarrow> string set \<Rightarrow> string option \<times> string set" where
  "mergeSegments cw segments outputPath files =
     (let listPath = path_join (cw_dirname cw outputPath) ''concat_list.txt'' in
      case cw_writeList cw of
        Some msg \<Rightarrow> (Some msg, files)
      | None \<Rightarrow>
          (let files1 = insert listPath files in
           case cw_ffmpeg cw of
             SpawnError msg \<Rightarrow> (Some (''Failed to spawn FFmpeg for merging: '' @ msg), files1)
           | Exit code errorOutput \<Rightarrow>
               (let files2 = unlink cw listPath files1;
                    files3 = fold (\<lambda>seg fs. unlink cw (rs_path seg) fs) (drop 1 segments) files2
                in if code = 0 then (None, insert outputPath files3)
                   else (Some (''Failed to merge segments: '' @ take 500 errorOutput), files3))))"

text \<open>
  The two shapes of the result of \<^verbatim>\<open>stopRecording()\<close>:
  \<^verbatim>\<open>{ success: false, error }\<close> and
  \<^verbatim>\<open>{ success, outputPath, duration, gaps, segments, mergeError }\<close>.
\<close>

datatype stop_result =
    StopFailed string
  | StopResult bool string int "gap list" "rec_segment list" "string option"

record stop_world =
  sw_stop :: stop_outcome
  sw_concat :: concat_world
  sw_now :: int

text \<open>\<^verbatim>\<open>!mergeError\<close>: \<^verbatim>\<open>null\<close> and the empty string are falsy.\<close>

definition falsy :: "string option \<Rightarrow> bool" where
  "falsy x = (x = None \<or> x = Some [])"

definition mgr_stopRecording ::
  "stop_world \<Rightarrow> recording_manager \<Rightarrow> string set
     \<Rightarrow> stop_result \<times> recording_manager \<times> string set" where
  "mgr_stopRecording sw m files =
     (case currentRecording m of
        None \<Rightarrow> (StopFailed ''No recording in progress'', m, files)
      | Some cur \<Rightarrow>
          (case rec_stopRecording (sw_stop sw) (recorder m) of
             (Inl msg, r') \<Rightarrow>
               (StopFailed msg,
                m\<lparr> recorder := r', currentRecording := None, isPaused := False,
                   pauseStartTime := None \<rparr>, files)
           | (Inr result, r') \<Rightarrow>
               (let (mergeError, files') =
                      (if length (rec_segments cur) > 1
                       then mergeSegments (sw_concat sw) (rec_segments cur) (rec_outputPath cur) files
                       else (None, files));
                    duration = sw_now sw - rec_startTime cur
                in (StopResult (st_success result \<and> falsy mergeError) (rec_outputPath cur)
                      duration (rec_gaps cur) (rec_segments cur) mergeError,
                    m\<lparr> recorder := r', currentRecording := None, isPaused := False,
                       pauseStartTime := None \<rparr>, files'))))"

text \<open>
  A session that is paused and resumed again and again: each round is a pause (how the
  adapter stops, the clock) followed by a resume (its two readings of the clock).
  The results of all the operations are collected.
\<close>

record cycle =
  c_stop :: stop_outcome
  c_pauseTime :: int
  c_resumeTime :: int
  c_segmentTime :: int

fun pause_resume ::
  "(string \<Rightarrow> nat \<Rightarrow> string) \<Rightarrow> cycle list \<Rightarrow> recording_manager
     \<Rightarrow> op_result list \<times> recording_manager" where
  "pause_resume segmentPath [] m = ([], m)"
| "pause_resume segmentPath (c # cs) m =
     (let (r1, m1) = mgr_pauseRecording (c_stop c) (c_pauseTime c) m;
          (r2, m2) = mgr_resumeRecording segmentPath (c_resumeTime c) (c_segmentTime c) m1;
          (rs, m3) = pause_resume segmentPath cs m2
      in (r1 # r2 # rs, m3))"

section \<open>Concrete inputs\<close>

subsection \<open>Segments and transcripts for the merger\<close>

definition ex_kept :: segment where
  "ex_kept = \<lparr> seg_id = 0, seg_start = 0, seg_end = 10, seg_text = ''budget'', seg_words = None \<rparr>"

definition ex_inner :: segment where
  "ex_inner = \<lparr> seg_id = 1, seg_start = 1, seg_end = 5, seg_text = ''review'', seg_words = None \<rparr>"

definition ex_later :: segment where
  "ex_later = \<lparr> seg_id = 2, seg_start = 8, seg_end = 12, seg_text = ''review'', seg_words = None \<rparr>"

definition ex_no_language :: transcript where
  "ex_no_language = TObject (Some []) (Some ''hello'') None"

definition ex_english :: transcript where
  "ex_english = TObject (Some []) (Some ''world'') (Some ''en'')"

definition ex_negative :: transcript where
  "ex_negative =
     TObject (Some [\<lparr> in_id = None, in_start = Some (- 5), in_end = Some (- 3),
                      in_text = Some ''x'', in_words = None \<rparr>]) (Some ''x'') (Some ''en'')"

subsection \<open>Three chunks of 60 seconds, the third of which fails\<close>

definition hello_result :: wtranscript where
  "hello_result =
     \<lparr> wt_text = Some ''Hello'', wt_language = Some ''en'',
       wt_segments = [\<lparr> ws_id = Some 0, ws_start = 0, ws_end = 2, ws_text = Some ''Hello'' \<rparr>] \<rparr>"

definition world_result :: wtranscript where
  "world_result =
     \<lparr> wt_text = Some ''World'', wt_language = Some ''en'',
       wt_segments = [\<lparr> ws_id = Some 0, ws_start = 0, ws_end = 2, ws_text = Some ''World'' \<rparr>] \<rparr>"

definition hello_body :: groq_result where
  "hello_body =
     \<lparr> gr_text = Some ''Hello'', gr_language = Some ''en'',
       gr_segments = Some [\<lparr> in_id = Some 0, in_start = Some 0, in_end = Some 2,
                             in_text = Some ''Hello'', in_words = None \<rparr>] \<rparr>"

definition world_body :: groq_result where
  "world_body =
     \<lparr> gr_text = Some ''World'', gr_language = Some ''en'',
       gr_segments = Some [\<lparr> in_id = Some 0, in_start = Some 0, in_end = Some 2,
                             in_text = Some ''World'', in_words = None \<rparr>] \<rparr>"

definition scenario_world :: world where
  "scenario_world =
     \<lparr> w_now = 1000, w_mkdir = None,
       w_split = Inr [''chunk_000.wav'', ''chunk_001.wav'', ''chunk_002.wav''],
       w_whisper = (\<lambda>p. if p = ''chunk_000.wav'' then Inr hello_result
                         else if p = ''chunk_001.wav'' then Inr world_result
                         else Inl ''Whisper failed with code 1''),
       w_groq = (\<lambda>p k n. if p = ''chunk_000.wav'' then Inr hello_body
                           else if p = ''chunk_001.wav'' then Inr world_body
                           else Inl ''Rate limited - will retry with next API key''),
       w_order = (\<lambda>pending. 0),
       w_dispatch_error = None, w_write = (\<lambda>p. None) \<rparr>"

definition local_options :: options where
  "local_options =
     \<lparr> opt_chunkDuration = Some 60, opt_useGroq = None, opt_groqApiKeys = None,
       opt_groqMaxConcurrent = None \<rparr>"

definition groq_options :: options where
  "groq_options =
     \<lparr> opt_chunkDuration = Some 60, opt_useGroq = Some True,
       opt_groqApiKeys = Some [''key-A'', ''key-B''], opt_groqMaxConcurrent = None \<rparr>"

text \<open>The same recording when the split fails.\<close>

definition failing_split_world :: world where
  "failing_split_world = scenario_world\<lparr> w_split := Inl ''FFmpeg split failed: '' \<rparr>"

text \<open>The merged transcript of a call that returned one.\<close>

definition merged_of :: "((error + job_result) \<times> whisper_processor) option \<Rightarrow> merged option" where
  "merged_of out = (case out of Some (Inr res, wp) \<Rightarrow> Some (transcript_of res) | _ \<Rightarrow> None)"

subsection \<open>A pool of two keys and an API that always answers 429\<close>

definition ex_pool :: groq_processor where
  "ex_pool = new_GroqProcessor [''key-A'', ''key-B''] None None"

definition ex_failing_api :: groq_api where
  "ex_failing_api chunkPath apiKey attempt = Inl ''Rate limited - will retry with next API key''"

text \<open>
  A batch of two chunks on that pool, and the requests it sends when the answers to
  chunk 0 arrive before those to chunk 1.
\<close>

definition ex_batch :: "string list" where
  "ex_batch = [''chunk_000.wav'', ''chunk_001.wav'']"

definition ex_failure :: "error + wtranscript" where
  "ex_failure = Inl (External ''Rate limited - will retry with next API key'')"

definition ex_request :: "nat \<Rightarrow> string \<Rightarrow> string \<Rightarrow> nat \<Rightarrow> request" where
  "ex_request i p k n = \<lparr> rq_index = i, rq_path = p, rq_key = k, rq_retry = n \<rparr>"

definition ex_sent :: "request list" where
  "ex_sent =
     [ex_request 0 ''chunk_000.wav'' ''key-A'' 0,
      ex_request 1 ''chunk_001.wav'' ''key-B'' 0,
      ex_request 0 ''chunk_000.wav'' ''key-A'' 1,
      ex_request 0 ''chunk_000.wav'' ''key-B'' 2,
      ex_request 0 ''chunk_000.wav'' ''key-A'' 3,
      ex_request 1 ''chunk_001.wav'' ''key-B'' 1,
      ex_request 1 ''chunk_001.wav'' ''key-A'' 2,
      ex_request 1 ''chunk_001.wav'' ''key-B'' 3]"

subsection \<open>A session paused twice, and a stop whose concatenation fails\<close>

definition ex_start_options :: start_options where
  "ex_start_options =
     \<lparr> so_mode = Some ''mic'', so_micDevice = Some ''Microphone'',
       so_loopbackDevice = None, so_outputPath = Some ''rec.wav'' \<rparr>"

definition ex_segmentPath :: "string \<Rightarrow> nat \<Rightarrow> string" where
  "ex_segmentPath base n = (if n = 2 then ''rec_segment2.wav'' else ''rec_segment3.wav'')"

definition ex_cycles :: "cycle list" where
  "ex_cycles =
     [\<lparr> c_stop = Exited, c_pauseTime = 10000, c_resumeTime = 15000, c_segmentTime = 15000 \<rparr>,
      \<lparr> c_stop = Exited, c_pauseTime = 20000, c_resumeTime = 20500, c_segmentTime = 20501 \<rparr>]"

definition ex_started :: recording_manager where
  "ex_started = snd (mgr_startRecording ex_start_options 0 0 new_RecordingManager)"

definition ex_segments :: "rec_segment list" where
  "ex_segments =
     [\<lparr> rs_path = ''rec.wav'', rs_startTime = 0 \<rparr>,
      \<lparr> rs_path = ''rec_segment2.wav'', rs_startTime = 15000 \<rparr>]"

definition ex_concat_failure :: concat_world where
  "ex_concat_failure =
     \<lparr> cw_dirname = (\<lambda>p. ''.''), cw_writeList = None,
       cw_ffmpeg = Exit 1 ''Invalid data found when processing input'',
       cw_unlink_ok = (\<lambda>p. True) \<rparr>"

definition ex_files :: "string set" where
  "ex_files = {''rec.wav'', ''rec_segment2.wav''}"

definition ex_recording :: recording where
  "ex_recording =
     \<lparr> rec_startTime = 0, rec_outputPath = ''rec.wav'', rec_mode = ''mic'',
       rec_micDevice = Some ''Microphone'', rec_loopbackDevice = None,
       rec_gaps = [\<lparr> gap_start = 10000, gap_end = Some 15000, gap_duration = Some 5000 \<rparr>],
       rec_segments = ex_segments \<rparr>"

definition ex_manager :: recording_manager where
  "ex_manager =
     \<lparr> recorder = \<lparr> r_isRecording = True, r_process = True,
                    r_outputPath = Some ''rec_segment2.wav'' \<rparr>,
       currentRecording = Some ex_recording, isPaused = False, pauseStartTime = None \<rparr>"

definition ex_stop_world :: stop_world where
  "ex_stop_world = \<lparr> sw_stop = Exited, sw_concat = ex_concat_failure, sw_now = 30000 \<rparr>"

section \<open>Notions used in the statements and proofs\<close>

text \<open>All the normalised segments of a merge, before they are sorted.\<close>

definition allSegments :: "transcript list \<Rightarrow> real \<Rightarrow> segment list" where
  "allSegments ts D =
     concat (map n_segments
       (map (\<lambda>(index, t). normalizeTranscript t (real index * D)) (enumerate 0 ts)))"

text \<open>A segment that does not begin before the one in front of it has ended.\<close>

definition follows :: "segment \<Rightarrow> segment \<Rightarrow> bool" where
  "follows a b = (seg_end a \<le> seg_start b)"

text \<open>The gap a pause-and-resume round leaves behind when both operations succeed.\<close>

definition closed_gap :: "cycle \<Rightarrow> gap" where
  "closed_gap c =
     \<lparr> gap_start = c_pauseTime c, gap_end = Some (c_resumeTime c),
       gap_duration = Some (c_resumeTime c - c_pauseTime c) \<rparr>"

text \<open>The answer to a request, and the requests of one chunk among those sent.\<close>

definition answer_of :: "groq_api \<Rightarrow> request \<Rightarrow> error + wtranscript" where
  "answer_of api rq = transcribeChunk api (rq_path rq) (rq_key rq) (rq_retry rq)"

definition requests_of :: "nat \<Rightarrow> request list \<Rightarrow> request list" where
  "requests_of i sent = filter (\<lambda>r. rq_index r = i) sent"

text \<open>
  What holds of chunk \<open>i\<close> (with path \<open>p\<close>) at every moment of its batch, for a pool
  with \<open>M\<close> retries and \<open>n\<close> keys: its requests so far are numbered from 0, there are at
  most \<open>M + 1\<close> of them, more than one only with more than one key, and all but the last
  have failed; and either the last one is in flight, or the chunk has ended with the
  answer to the last one, a failure only when the retries are used up or there is one
  key.
\<close>

definition chunk_inv ::
  "groq_api \<Rightarrow> nat \<Rightarrow> nat \<Rightarrow> nat \<Rightarrow> string \<Rightarrow> request list
     \<Rightarrow> (nat \<times> (error + wtranscript)) list \<Rightarrow> request list \<Rightarrow> bool" where
  "chunk_inv api M n i p pending items sent =
     (requests_of i sent \<noteq> []
      \<and> map rq_retry (requests_of i sent) = [0 ..< length (requests_of i sent)]
      \<and> length (requests_of i sent) \<le> M + 1
      \<and> (\<forall>r \<in> set (requests_of i sent). rq_path r = p)
      \<and> (1 < length (requests_of i sent) \<longrightarrow> 1 < n)
      \<and> (\<forall>r \<in> set (butlast (requests_of i sent)). isl (answer_of api r))
      \<and> ((requests_of i pending = [last (requests_of i sent)]
           \<and> filter (\<lambda>it. fst it = i) items = [])
         \<or> (requests_of i pending = []
            \<and> filter (\<lambda>it. fst it = i) items = [(i, answer_of api (last (requests_of i sent)))]
            \<and> (isl (answer_of api (last (requests_of i sent)))
                 \<longrightarrow> length (requests_of i sent) = M + 1 \<or> n \<le> 1))))"

text \<open>
  The keys in rotation: request number \<open>t\<close> of the batch, whichever chunk sent it and
  whether first attempt or retry, carries the key \<open>t\<close> places after the cursor at the
  start of the batch.
\<close>

definition in_rotation :: "string list \<Rightarrow> nat \<Rightarrow> groq_processor \<Rightarrow> request list \<Rightarrow> bool" where
  "in_rotation K c g sent =
     (apiKeys g = K
      \<and> currentKeyIndex g = (c + length sent) mod length K
      \<and> map rq_key sent = map (\<lambda>t. K ! ((c + t) mod length K)) [0 ..< length sent])"

text \<open>The pool of a processor, if it has one, dispatches batches of at least one chunk.\<close>

definition pool_ready :: "whisper_processor \<Rightarrow> bool" where
  "pool_ready wp = (case groqProcessor wp of None \<Rightarrow> True | Some g \<Rightarrow> 0 < maxConcurrent g)"

section \<open>Properties of the Transcript Merger\<close>

subsection \<open>The deduplication pass\<close>

lemma str_includes_empty: "str_includes s []"
  by (cases s) simp_all

lemma str_includes_sublist: "str_includes s t = sublist t s"
  by (induction s) (auto simp: sublist_Cons_right)

lemma dedup_step_nonempty: "result \<noteq> [] \<Longrightarrow> dedup_step current result \<noteq> []"
  by (simp add: dedup_step_def Let_def)

lemma fold_dedup_nonempty: "result \<noteq> [] \<Longrightarrow> fold dedup_step rest result \<noteq> []"
  by (induction rest arbitrary: result) (simp_all add: dedup_step_nonempty)

lemma deduplicateSegments_nonempty: "segments \<noteq> [] \<Longrightarrow> deduplicateSegments segments \<noteq> []"
  by (cases segments) (simp_all add: deduplicateSegments_def fold_dedup_nonempty)

text \<open>The pass over a list with one more segment is one more round of the loop.\<close>

lemma deduplicateSegments_snoc:
  "segments \<noteq> [] \<Longrightarrow>
     deduplicateSegments (segments @ [nxt]) = dedup_step nxt (deduplicateSegments segments)"
  by (cases segments) (simp_all add: deduplicateSegments_def)

lemma dedup_step_rule:
  assumes "result \<noteq> []"
  shows "dedup_step nxt result =
     (let kept = last result in
      if seg_start nxt < seg_end kept then
        butlast result @
          [kept\<lparr> seg_end := max (seg_end kept) (seg_end nxt),
                seg_text := (if seg_end kept < seg_end nxt
                                \<and> \<not> str_includes (seg_text kept) (seg_text nxt)
                             then seg_text kept @ '' '' @ seg_text nxt
                             else seg_text kept) \<rparr>]
      else result @ [nxt])"
proof -
  have keep: "butlast result @ [last result] = result"
    using assms by simp
  have empty: "seg_text nxt = [] \<Longrightarrow> str_includes (seg_text (last result)) (seg_text nxt)"
    by (simp add: str_includes_empty)
  show ?thesis
    using keep empty by (auto simp: dedup_step_def Let_def max_def)
qed

text \<open>
  Claim C2, as the code has it. Walking the list, let \<open>kept\<close> be the last segment kept
  so far and \<open>nxt\<close> the next segment. If \<open>nxt\<close> starts strictly before \<open>kept\<close> ends,
  no new entry is made, the end of \<open>kept\<close> becomes the later of the two ends, and the
  text of \<open>nxt\<close> is appended (after a blank) if and only if \<open>nxt\<close> ends after \<open>kept\<close>
  and its text does not already occur in the text of \<open>kept\<close>; a segment that ends
  inside \<open>kept\<close> is dropped with its text. If \<open>nxt\<close> starts at or after the end of
  \<open>kept\<close>, it is kept unchanged as a new entry.
\<close>

theorem dedup_overlap_rule:
  assumes "segments \<noteq> []"
  shows "deduplicateSegments (segments @ [nxt]) =
     (let result = deduplicateSegments segments; kept = last result in
      if seg_start nxt < seg_end kept then
        butlast result @
          [kept\<lparr> seg_end := max (seg_end kept) (seg_end nxt),
                seg_text := (if seg_end kept < seg_end nxt
                                \<and> \<not> str_includes (seg_text kept) (seg_text nxt)
                             then seg_text kept @ '' '' @ seg_text nxt
                             else seg_text kept) \<rparr>]
      else result @ [nxt])"
  using assms dedup_step_rule [OF deduplicateSegments_nonempty [OF assms], of nxt]
  by (simp add: deduplicateSegments_snoc Let_def)

text \<open>
  The rule at work: \<open>ex_later\<close> (8 to 12) overlaps \<open>ex_kept\<close> (0 to 10) and ends after
  it, so the kept segment is extended to 12 and the new text is appended.
\<close>

theorem dedup_overlap_rule_witness:
  "[ex_kept] \<noteq> []
   \<and> deduplicateSegments ([ex_kept] @ [ex_later]) =
       [\<lparr> seg_id = 0, seg_start = 0, seg_end = 12, seg_text = ''budget review'',
          seg_words = None \<rparr>]"
proof -
  have ne: "[ex_kept] \<noteq> []" by simp
  have one: "deduplicateSegments [ex_kept] = [ex_kept]"
    by (simp add: deduplicateSegments_def)
  have "deduplicateSegments ([ex_kept] @ [ex_later]) =
      (let result = [ex_kept]; kept = last result in
       if seg_start ex_later < seg_end kept then
         butlast result @
           [kept\<lparr> seg_end := max (seg_end kept) (seg_end ex_later),
                 seg_text := (if seg_end kept < seg_end ex_later
                                 \<and> \<not> str_includes (seg_text kept) (seg_text ex_later)
                              then seg_text kept @ '' '' @ seg_text ex_later
                              else seg_text kept) \<rparr>]
       else result @ [ex_later])"
    using dedup_overlap_rule [OF ne, of ex_later] by (simp only: one)
  then show ?thesis
    by (simp add: ex_kept_def ex_later_def Let_def)
qed

text \<open>
  Claim C2 as stated fails: \<open>ex_inner\<close> (1 to 5) starts before \<open>ex_kept\<close> (0 to 10)
  ends and its text does not occur in the kept text, yet nothing is appended.
\<close>

theorem dedup_contained_text_counterexample:
  "seg_start ex_inner < seg_end ex_kept
   \<and> \<not> str_includes (seg_text ex_kept) (seg_text ex_inner)
   \<and> deduplicateSegments [ex_kept, ex_inner] = [ex_kept]"
  by (simp add: ex_kept_def ex_inner_def deduplicateSegments_def dedup_step_def)

subsection \<open>Order of the merged segments\<close>

text \<open>The start times a round keeps: those kept so far, and the new one if it is appended.\<close>

lemma dedup_step_starts:
  assumes "result \<noteq> []"
  shows "map seg_start (dedup_step current result) =
     (if seg_start current < seg_end (last result) then map seg_start result
      else map seg_start result @ [seg_start current])"
proof -
  have "map seg_start (butlast result) @ [seg_start (last result)] = map seg_start result"
    using assms by (metis append_butlast_last_id list.simps(8,9) map_append)
  then show ?thesis
    by (simp add: dedup_step_def Let_def)
qed

lemma sorted_drop_middle: "sorted (xs @ y # ys) \<Longrightarrow> sorted (xs @ (ys :: real list))"
  by (auto simp: sorted_append)

lemma fold_dedup_sorted:
  assumes "result \<noteq> []" and "sorted (map seg_start result @ map seg_start rest)"
  shows "sorted (map seg_start (fold dedup_step rest result))"
  using assms
proof (induction rest arbitrary: result)
  case Nil
  then show ?case by simp
next
  case (Cons c rest)
  have "sorted (map seg_start (dedup_step c result) @ map seg_start rest)"
    using Cons.prems sorted_drop_middle [of "map seg_start result" "seg_start c" "map seg_start rest"]
    by (simp add: dedup_step_starts)
  then show ?case
    using Cons.IH [OF dedup_step_nonempty [OF Cons.prems(1)]] by simp
qed

lemma dedup_step_successively:
  assumes "result \<noteq> []" and "successively follows result"
  shows "successively follows (dedup_step current result)"
proof -
  have split: "butlast result @ [last result] = result"
    using assms(1) by simp
  have "successively follows (butlast result @ [last result])"
    using assms(2) split by simp
  then have init: "successively follows (butlast result)"
    and link: "butlast result \<noteq> [] \<longrightarrow> follows (last (butlast result)) (last result)"
    by (auto simp: successively_append_iff)
  have ext: "\<And>s. seg_start s = seg_start (last result) \<Longrightarrow>
               successively follows (butlast result @ [s])"
    using init link by (auto simp: successively_append_iff follows_def)
  show ?thesis
    using assms ext
    by (auto simp: dedup_step_def Let_def successively_append_iff follows_def)
qed

lemma fold_dedup_successively:
  assumes "result \<noteq> []" and "successively follows result"
  shows "successively follows (fold dedup_step rest result)"
  using assms
proof (induction rest arbitrary: result)
  case Nil
  then show ?case by simp
next
  case (Cons c rest)
  show ?case
    using Cons.IH [OF dedup_step_nonempty [OF Cons.prems(1)]
        dedup_step_successively [OF Cons.prems]]
    by simp
qed

lemma dedup_step_ordered:
  assumes "result \<noteq> []" and "\<forall>s \<in> set result. seg_start s \<le> seg_end s"
    and "seg_start current \<le> seg_end current"
  shows "\<forall>s \<in> set (dedup_step current result). seg_start s \<le> seg_end s"
proof -
  have l: "seg_start (last result) \<le> seg_end (last result)"
    using assms(1,2) by simp
  have b: "\<forall>s \<in> set (butlast result). seg_start s \<le> seg_end s"
    using assms(2) by (meson in_set_butlastD)
  have e: "seg_end (last result) < seg_end current \<Longrightarrow> seg_start (last result) \<le> seg_end current"
    using l by linarith
  show ?thesis
    using assms(2,3) b e by (auto simp: dedup_step_def Let_def)
qed

lemma fold_dedup_ordered:
  assumes "result \<noteq> []" and "\<forall>s \<in> set result. seg_start s \<le> seg_end s"
    and "\<forall>s \<in> set rest. seg_start s \<le> seg_end s"
  shows "\<forall>s \<in> set (fold dedup_step rest result). seg_start s \<le> seg_end s"
  using assms
proof (induction rest arbitrary: result)
  case Nil
  then show ?case by simp
next
  case (Cons c rest)
  have c: "seg_start c \<le> seg_end c" and rest: "\<forall>s \<in> set rest. seg_start s \<le> seg_end s"
    using Cons.prems(3) by simp_all
  have "\<forall>s \<in> set (dedup_step c result). seg_start s \<le> seg_end s"
    by (rule dedup_step_ordered [OF Cons.prems(1,2) c])
  from Cons.IH [OF dedup_step_nonempty [OF Cons.prems(1)] this rest]
  show ?case by simp
qed

lemma deduplicateSegments_sorted:
  "sorted (map seg_start segments) \<Longrightarrow> sorted (map seg_start (deduplicateSegments segments))"
  by (cases segments) (simp_all add: deduplicateSegments_def fold_dedup_sorted)

lemma deduplicateSegments_successively:
  "successively follows (deduplicateSegments segments)"
  by (cases segments) (simp_all add: deduplicateSegments_def fold_dedup_successively)

lemma deduplicateSegments_ordered:
  "\<forall>s \<in> set segments. seg_start s \<le> seg_end s \<Longrightarrow>
     \<forall>s \<in> set (deduplicateSegments segments). seg_start s \<le> seg_end s"
proof (cases segments)
  case Nil
  then show ?thesis by (simp add: deduplicateSegments_def)
next
  case (Cons a rest)
  assume "\<forall>s \<in> set segments. seg_start s \<le> seg_end s"
  then have "\<forall>s \<in> set [a]. seg_start s \<le> seg_end s" and "\<forall>s \<in> set rest. seg_start s \<le> seg_end s"
    using Cons by simp_all
  then have "\<forall>s \<in> set (fold dedup_step rest [a]). seg_start s \<le> seg_end s"
    by (intro fold_dedup_ordered) simp_all
  then show ?thesis using Cons by (simp add: deduplicateSegments_def)
qed

lemma merge_segments_eq:
  "m_segments (merge ts D) = deduplicateSegments (sort_key seg_start (allSegments ts D))"
  by (simp add: merge_def allSegments_def createEmptyTranscript_def deduplicateSegments_def Let_def)

text \<open>
  Two parts of claim C8 hold for every input: the start times of the merged segments
  never decrease, and no segment begins before the one in front of it has ended.
\<close>

theorem merged_segments_ordered:
  "sorted (map seg_start (m_segments (merge ts D)))
   \<and> successively (\<lambda>a b. seg_end a \<le> seg_start b) (m_segments (merge ts D))"
proof -
  have "successively follows (m_segments (merge ts D))"
    by (simp only: merge_segments_eq deduplicateSegments_successively)
  then have "successively (\<lambda>a b. seg_end a \<le> seg_start b) (m_segments (merge ts D))"
    by (simp add: follows_def [abs_def])
  moreover have "sorted (map seg_start (m_segments (merge ts D)))"
    by (simp only: merge_segments_eq) (rule deduplicateSegments_sorted, simp)
  ultimately show ?thesis by simp
qed

text \<open>
  The third part, \<open>end \<ge> start\<close>, holds when it holds for every normalised segment,
  which is the case when no shifted start time is negative.
\<close>

lemma adjustSegment_ordered:
  assumes "0 \<le> (case in_start s of Some st \<Rightarrow> st + offsetSeconds
                  | None \<Rightarrow> offsetSeconds + real index * 5)"
  shows "seg_start (adjustSegment offsetSeconds index s) \<le> seg_end (adjustSegment offsetSeconds index s)"
  using assms by (auto simp: adjustSegment_def Let_def split: option.splits)

theorem merged_segments_end_after_start:
  assumes "\<forall>s \<in> set (allSegments ts D). seg_start s \<le> seg_end s"
  shows "\<forall>s \<in> set (m_segments (merge ts D)). seg_start s \<le> seg_end s"
proof -
  have "\<forall>s \<in> set (sort_key seg_start (allSegments ts D)). seg_start s \<le> seg_end s"
    using assms by simp
  then show ?thesis
    by (simp only: merge_segments_eq) (rule deduplicateSegments_ordered)
qed

text \<open>
  Claim C8 fails on the code for a segment that lies before time 0: the start is
  clamped to 0, the end is compared with the start before clamping, and the merged
  segment runs from 0 to -3.
\<close>

theorem merged_negative_segment:
  "map (\<lambda>s. (seg_start s, seg_end s)) (m_segments (merge [ex_negative] 60)) = [(0, - 3)]"
  by (simp add: merge_def ex_negative_def normalizeTranscript_def adjustSegment_def
      deduplicateSegments_def Let_def)

subsection \<open>Detected language\<close>

text \<open>Every normalised transcript has a non-empty language, \<open>unknown\<close> if it had none.\<close>

lemma normalized_language_nonempty: "n_language (normalizeTranscript t off) \<noteq> []"
  by (cases t) (simp_all add: normalizeTranscript_def str_or_def Let_def split: option.splits)

text \<open>So the merged language is that of the first transcript, whatever the others say.\<close>

lemma merge_language_first:
  "m_language (merge (t # ts) D) = n_language (normalizeTranscript t 0)"
  by (simp add: merge_def find_language_def normalized_language_nonempty str_or_def Let_def)

text \<open>
  Claim C9 fails on the code: the first transcript has no language, the second is
  English, and the merged language is \<open>unknown\<close>.
\<close>

theorem merged_language_unknown:
  "m_language (merge [ex_no_language, ex_english] 60) = ''unknown''"
  by (simp add: merge_def ex_no_language_def ex_english_def normalizeTranscript_def
      find_language_def str_or_def Let_def)

section \<open>Properties of the remote worker pool\<close>

declare completeBatch.simps [simp del]

subsection \<open>One answer\<close>

text \<open>What the answer to a request can lead to.\<close>

lemma transcribeWithRetry_Finished:
  assumes "transcribeWithRetry api rq g = (Finished res, g')" and "apiKeys g \<noteq> []"
  shows "g' = g \<and> res = transcribeChunk api (rq_path rq) (rq_key rq) (rq_retry rq)
     \<and> (isl res \<longrightarrow> \<not> (rq_retry rq < maxRetries g \<and> 1 < length (apiKeys g)))"
proof (cases "transcribeChunk api (rq_path rq) (rq_key rq) (rq_retry rq)")
  case (Inr t)
  have "transcribeWithRetry api rq g = (Finished (Inr t), g)"
    using Inr by (simp add: transcribeWithRetry_def)
  then have "res = Inr t" and "g' = g"
    using assms(1) by simp_all
  then show ?thesis using Inr by simp
next
  case (Inl e)
  then show ?thesis using assms
    by (auto simp: transcribeWithRetry_def getNextApiKey_def Let_def split: if_splits)
qed

lemma transcribeWithRetry_Finished_frame:
  "transcribeWithRetry api rq g = (Finished res, g') \<Longrightarrow> g' = g"
  by (auto simp: transcribeWithRetry_def getNextApiKey_def Let_def split: sum.splits if_splits)

lemma transcribeWithRetry_Retried:
  assumes "transcribeWithRetry api rq g = (Retried rq', g')"
  shows "isl (transcribeChunk api (rq_path rq) (rq_key rq) (rq_retry rq))
     \<and> rq_retry rq < maxRetries g \<and> 1 < length (apiKeys g)
     \<and> rq' = rq\<lparr> rq_key := apiKeys g ! currentKeyIndex g, rq_retry := rq_retry rq + 1 \<rparr>
     \<and> g' = g\<lparr> currentKeyIndex := (currentKeyIndex g + 1) mod length (apiKeys g) \<rparr>"
  using assms
  by (auto simp: transcribeWithRetry_def getNextApiKey_def Let_def split: sum.splits if_splits)

subsection \<open>Invariants of a batch\<close>

text \<open>
  A property of the state of a batch that every answer preserves holds when the batch
  is complete. The requests in flight are split at the one that is answered.
\<close>

lemma completeBatch_invariant:
  assumes init: "I pending items g sent"
    and fin: "\<And>before rq after items g sent res g'.
        I (before @ rq # after) items g sent \<Longrightarrow> transcribeWithRetry api rq g = (Finished res, g') \<Longrightarrow>
        I (before @ after) (items @ [(rq_index rq, res)]) g' sent"
    and retry: "\<And>before rq after items g sent rq' g'.
        I (before @ rq # after) items g sent \<Longrightarrow> transcribeWithRetry api rq g = (Retried rq', g') \<Longrightarrow>
        I (before @ rq' # after) items g' (sent @ [rq'])"
  shows "case completeBatch api order pending items g sent of
           (items', g', sent') \<Rightarrow> I [] items' g' sent'"
  using init fin retry
proof (induction api order pending items g sent rule: completeBatch.induct)
  case (1 api order pending items g sent)
  note here0 = "1.prems"(1) and fin = "1.prems"(2) and retry = "1.prems"(3)
  show ?case
  proof (cases "pending = []")
    case True
    then show ?thesis using here0 by (simp add: completeBatch.simps)
  next
    case False
    define n where "n = order pending mod length pending"
    define rq where "rq = pending ! n"
    have n: "n < length pending" using False by (simp add: n_def)
    have split: "take n pending @ rq # drop (Suc n) pending = pending"
      unfolding rq_def by (rule id_take_nth_drop [OF n, symmetric])
    have here: "I (take n pending @ rq # drop (Suc n) pending) items g sent"
      using here0 by (simp only: split)
    obtain e g' where e: "transcribeWithRetry api rq g = (e, g')"
      by (cases "transcribeWithRetry api rq g") auto
    show ?thesis
    proof (cases e)
      case (Finished res)
      have e': "transcribeWithRetry api rq g = (Finished res, g')"
        using e Finished by simp
      have "I (take n pending @ drop (Suc n) pending) (items @ [(rq_index rq, res)]) g' sent"
        by (rule fin [OF here e'])
      from "1.IH"(1) [OF False n_def rq_def e [symmetric] Finished this fin retry]
      show ?thesis
        using False e' by (subst completeBatch.simps) (simp add: n_def [symmetric] rq_def [symmetric] Let_def)
    next
      case (Retried rq')
      have e': "transcribeWithRetry api rq g = (Retried rq', g')"
        using e Retried by simp
      have "I (take n pending @ rq' # drop (Suc n) pending) items g' (sent @ [rq'])"
        by (rule retry [OF here e'])
      from "1.IH"(2) [OF False n_def rq_def e [symmetric] Retried this fin retry]
      show ?thesis
        using False e' by (subst completeBatch.simps) (simp add: n_def [symmetric] rq_def [symmetric] Let_def)
    qed
  qed
qed

text \<open>The configuration of the pool stays as it is; only the cursor moves.\<close>

lemma completeBatch_frame:
  assumes "completeBatch api order pending items g sent = (items', g', sent')"
  shows "apiKeys g' = apiKeys g \<and> maxRetries g' = maxRetries g \<and> maxConcurrent g' = maxConcurrent g"
proof -
  have "case completeBatch api order pending items g sent of
          (items', g', sent') \<Rightarrow>
            apiKeys g' = apiKeys g \<and> maxRetries g' = maxRetries g \<and> maxConcurrent g' = maxConcurrent g"
    by (rule completeBatch_invariant
          [where I = "\<lambda>pending items g1 sent.
             apiKeys g1 = apiKeys g \<and> maxRetries g1 = maxRetries g \<and> maxConcurrent g1 = maxConcurrent g"])
       (auto dest: transcribeWithRetry_Finished_frame transcribeWithRetry_Retried)
  then show ?thesis using assms by simp
qed

lemma groq_processChunk_cases:
  "groq_processChunk p i g =
     (if apiKeys g = [] then (Inl NoApiKeys, g)
      else (Inr \<lparr> rq_index = i, rq_path = p, rq_key = apiKeys g ! currentKeyIndex g, rq_retry = 0 \<rparr>,
            g\<lparr> currentKeyIndex := (currentKeyIndex g + 1) mod length (apiKeys g) \<rparr>))"
  by (simp add: groq_processChunk_def getNextApiKey_def Let_def)

lemma dispatchBatch_frame:
  "dispatchBatch i batch g = (pending, items, g') \<Longrightarrow>
     apiKeys g' = apiKeys g \<and> maxRetries g' = maxRetries g \<and> maxConcurrent g' = maxConcurrent g"
proof (induction batch arbitrary: i g pending items g')
  case Nil
  then show ?case by simp
next
  case (Cons p rest)
  show ?case
  proof (cases "apiKeys g = []")
    case True
    obtain pd it g2 where rec: "dispatchBatch (i + 1) rest g = (pd, it, g2)"
      by (cases "dispatchBatch (i + 1) rest g") auto
    have "g' = g2" using Cons.prems True rec by (simp add: groq_processChunk_cases)
    then show ?thesis using Cons.IH [OF rec] by simp
  next
    case False
    let ?g = "g\<lparr> currentKeyIndex := (currentKeyIndex g + 1) mod length (apiKeys g) \<rparr>"
    obtain pd it g2 where rec: "dispatchBatch (i + 1) rest ?g = (pd, it, g2)"
      by (cases "dispatchBatch (i + 1) rest ?g") auto
    have "g' = g2" using Cons.prems False rec by (simp add: groq_processChunk_cases)
    then show ?thesis using Cons.IH [OF rec] by simp
  qed
qed

lemma processBatch_frame:
  assumes "processBatch api order i batch g = (items, g', sent)"
  shows "apiKeys g' = apiKeys g \<and> maxRetries g' = maxRetries g \<and> maxConcurrent g' = maxConcurrent g"
proof -
  obtain pending rejected g1 where d: "dispatchBatch i batch g = (pending, rejected, g1)"
    by (cases "dispatchBatch i batch g") auto
  obtain its g2 snt where c: "completeBatch api order pending rejected g1 pending = (its, g2, snt)"
    by (cases "completeBatch api order pending rejected g1 pending") auto
  have "g' = g2" using assms d c by (simp add: processBatch_def)
  then show ?thesis
    using dispatchBatch_frame [OF d] completeBatch_frame [OF c] by simp
qed

text \<open>The requests in flight after the dispatch: one for each chunk, with the keys in rotation.\<close>

lemma dispatchBatch_requests:
  assumes "dispatchBatch i batch g = (pending, items, g')"
    and "currentKeyIndex g < length (apiKeys g)"
  shows "items = []
     \<and> pending = map (\<lambda>t. \<lparr> rq_index = i + t, rq_path = batch ! t,
                             rq_key = apiKeys g ! ((currentKeyIndex g + t) mod length (apiKeys g)),
                             rq_retry = 0 \<rparr>) [0 ..< length batch]
     \<and> currentKeyIndex g' = (currentKeyIndex g + length batch) mod length (apiKeys g)"
  using assms
proof (induction batch arbitrary: i g pending items g')
  case Nil
  then show ?case by simp
next
  case (Cons p rest)
  let ?n = "length (apiKeys g)"
  let ?c = "currentKeyIndex g"
  let ?g = "g\<lparr> currentKeyIndex := (?c + 1) mod ?n \<rparr>"
  have keys: "apiKeys g \<noteq> []" and n: "0 < ?n" using Cons.prems(2) by auto
  obtain pd it g2 where rec: "dispatchBatch (i + 1) rest ?g = (pd, it, g2)"
    by (cases "dispatchBatch (i + 1) rest ?g") auto
  have c1: "currentKeyIndex ?g < length (apiKeys ?g)" using n by simp
  from Cons.IH [OF rec c1]
  have it: "it = []"
    and pd: "pd = map (\<lambda>t. \<lparr> rq_index = i + 1 + t, rq_path = rest ! t,
                             rq_key = apiKeys g ! (((?c + 1) mod ?n + t) mod ?n),
                             rq_retry = 0 \<rparr>) [0 ..< length rest]"
    and g2: "currentKeyIndex g2 = ((?c + 1) mod ?n + length rest) mod ?n"
    by simp_all
  have out: "pending = \<lparr> rq_index = i, rq_path = p, rq_key = apiKeys g ! ?c, rq_retry = 0 \<rparr> # pd"
    "items = it" "g' = g2"
    using Cons.prems(1) keys rec by (simp_all add: groq_processChunk_cases)
  have shift: "\<And>t. ((?c + 1) mod ?n + t) mod ?n = (?c + Suc t) mod ?n"
    by (simp add: mod_add_left_eq)
  have upt: "[0 ..< length (p # rest)] = 0 # map Suc [0 ..< length rest]"
    by (simp add: upt_conv_Cons map_Suc_upt del: upt_Suc)
  have c0: "?c mod ?n = ?c" using Cons.prems(2) by simp
  show ?case
    unfolding out it pd g2 upt shift
    by (simp add: c0 comp_def)
qed

subsection \<open>The keys in rotation\<close>

text \<open>A retry takes the key under the cursor and moves the cursor on by one.\<close>

lemma in_rotation_retry:
  assumes "in_rotation K c g sent" and "transcribeWithRetry api rq g = (Retried rq', g')"
  shows "in_rotation K c g' (sent @ [rq'])"
proof -
  have r: "rq_key rq' = apiKeys g ! currentKeyIndex g"
    and g': "g' = g\<lparr> currentKeyIndex := (currentKeyIndex g + 1) mod length (apiKeys g) \<rparr>"
    using transcribeWithRetry_Retried [OF assms(2)] by simp_all
  have "((c + length sent) mod length K + 1) mod length K = (c + length sent + 1) mod length K"
    by (simp add: mod_Suc_eq)
  then show ?thesis
    using assms(1) r g' by (simp add: in_rotation_def)
qed

lemma completeBatch_rotation:
  assumes "completeBatch api order pending items g sent = (items', g', sent')"
    and "in_rotation K c g sent"
  shows "in_rotation K c g' sent'"
proof -
  have "case completeBatch api order pending items g sent of
          (items', g', sent') \<Rightarrow> in_rotation K c g' sent'"
  proof (rule completeBatch_invariant [where I = "\<lambda>pending items g sent. in_rotation K c g sent"],
      goal_cases)
    case 1
    show ?case by (rule assms(2))
  next
    case (2 before rq after items g sent res g')
    then show ?case using transcribeWithRetry_Finished_frame by blast
  next
    case (3 before rq after items g sent rq' g')
    then show ?case by (rule in_rotation_retry)
  qed
  then show ?thesis using assms(1) by simp
qed

lemma dispatchBatch_rotation:
  assumes "dispatchBatch i batch g = (pending, items, g')"
    and "currentKeyIndex g < length (apiKeys g)"
  shows "in_rotation (apiKeys g) (currentKeyIndex g) g' pending"
  using dispatchBatch_requests [OF assms] dispatchBatch_frame [OF assms(1)]
  by (simp add: in_rotation_def comp_def)

lemma processBatch_rotation:
  assumes run: "processBatch api order i0 batch g0 = (items, g', sent)"
    and cursor: "currentKeyIndex g0 < length (apiKeys g0)"
  shows "in_rotation (apiKeys g0) (currentKeyIndex g0) g' sent"
proof -
  obtain pending rejected g1 where d: "dispatchBatch i0 batch g0 = (pending, rejected, g1)"
    by (cases "dispatchBatch i0 batch g0") auto
  obtain its g2 snt where c: "completeBatch api order pending rejected g1 pending = (its, g2, snt)"
    by (cases "completeBatch api order pending rejected g1 pending") auto
  have res: "g' = g2" "sent = snt"
    using run d c by (simp_all add: processBatch_def)
  have "in_rotation (apiKeys g0) (currentKeyIndex g0) g1 pending"
    by (rule dispatchBatch_rotation [OF d cursor])
  then have "in_rotation (apiKeys g0) (currentKeyIndex g0) g2 snt"
    by (rule completeBatch_rotation [OF c])
  then show ?thesis by (simp only: res)
qed

text \<open>
  The cursor points at a key when the pool is constructed with keys, and every batch
  leaves it pointing at a key.
\<close>

lemma new_GroqProcessor_cursor:
  "keys \<noteq> [] \<Longrightarrow>
     currentKeyIndex (new_GroqProcessor keys optMaxConcurrent optMaxRetries)
       < length (apiKeys (new_GroqProcessor keys optMaxConcurrent optMaxRetries))"
  by (simp add: new_GroqProcessor_def)

lemma processBatch_cursor:
  assumes run: "processBatch api order i0 batch g0 = (items, g', sent)"
    and cursor: "currentKeyIndex g0 < length (apiKeys g0)"
  shows "currentKeyIndex g' < length (apiKeys g')"
proof -
  have "apiKeys g0 \<noteq> []" using cursor by auto
  then show ?thesis
    using processBatch_rotation [OF run cursor] by (simp add: in_rotation_def)
qed

subsection \<open>The requests of one chunk\<close>

text \<open>Filtering the requests for one chunk.\<close>

lemma requests_of_append [simp]:
  "requests_of i (xs @ ys) = requests_of i xs @ requests_of i ys"
  by (simp add: requests_of_def)

lemma requests_of_Cons:
  "requests_of i (r # rs) = (if rq_index r = i then r # requests_of i rs else requests_of i rs)"
  by (simp add: requests_of_def)

lemma requests_of_Nil [simp]: "requests_of i [] = []"
  by (simp add: requests_of_def)

lemma last_retry:
  assumes "rs \<noteq> []" and "map rq_retry rs = [0 ..< length rs]"
  shows "rq_retry (last rs) = length rs - 1"
proof -
  have "rq_retry (last rs) = last (map rq_retry rs)"
    using assms(1) by (simp add: last_map)
  also have "\<dots> = last [0 ..< length rs]" by (simp only: assms(2))
  also have "\<dots> = length rs - 1" using assms(1) by simp
  finally show ?thesis .
qed

text \<open>
  An answer to another chunk leaves the requests of a chunk as they are; an answer to
  the chunk itself is an answer to its latest request.
\<close>

lemma chunk_inv_other_finished:
  assumes "chunk_inv api M n i p (before @ rq # after) items sent" and "rq_index rq \<noteq> i"
  shows "chunk_inv api M n i p (before @ after) (items @ [(rq_index rq, res)]) sent"
  using assms by (simp add: chunk_inv_def requests_of_Cons)

lemma chunk_inv_other_retried:
  assumes "chunk_inv api M n i p (before @ rq # after) items sent" and "rq_index rq \<noteq> i"
    and "rq_index rq' = rq_index rq"
  shows "chunk_inv api M n i p (before @ rq' # after) items (sent @ [rq'])"
  using assms by (simp add: chunk_inv_def requests_of_Cons)

lemma chunk_inv_in_flight:
  assumes inv: "chunk_inv api M n i p (before @ rq # after) items sent" and i: "rq_index rq = i"
  shows "requests_of i before = []" and "requests_of i after = []"
    and "rq = last (requests_of i sent)" and "filter (\<lambda>it. fst it = i) items = []"
    and "rq_retry rq = length (requests_of i sent) - 1" and "rq_path rq = p"
proof -
  let ?R = "requests_of i sent"
  have ne: "requests_of i (before @ rq # after) \<noteq> []"
    using i by (simp add: requests_of_Cons)
  then have one: "requests_of i (before @ rq # after) = [last ?R]"
    and none: "filter (\<lambda>it. fst it = i) items = []"
    using inv unfolding chunk_inv_def by auto
  have "requests_of i before @ rq # requests_of i after = [last ?R]"
    using one i by (simp add: requests_of_Cons)
  then have b: "requests_of i before = []" and a: "requests_of i after = []" and l: "rq = last ?R"
    by (auto simp: append_eq_Cons_conv Cons_eq_append_conv)
  have R: "?R \<noteq> []" and up: "map rq_retry ?R = [0 ..< length ?R]" and path: "\<forall>r \<in> set ?R. rq_path r = p"
    using inv unfolding chunk_inv_def by auto
  show "requests_of i before = []" by (rule b)
  show "requests_of i after = []" by (rule a)
  show "rq = last ?R" by (rule l)
  show "filter (\<lambda>it. fst it = i) items = []" by (rule none)
  show "rq_retry rq = length ?R - 1"
    using last_retry [OF R up] l by simp
  show "rq_path rq = p"
    using path R l by simp
qed

lemma chunk_inv_finished:
  assumes inv: "chunk_inv api M n i p (before @ rq # after) items sent"
    and fin: "transcribeWithRetry api rq g = (Finished res, g')"
    and g: "apiKeys g \<noteq> []" "maxRetries g = M" "length (apiKeys g) = n"
  shows "chunk_inv api M n i p (before @ after) (items @ [(rq_index rq, res)]) sent"
proof (cases "rq_index rq = i")
  case False
  then show ?thesis by (rule chunk_inv_other_finished [OF inv])
next
  case True
  let ?R = "requests_of i sent"
  note f = chunk_inv_in_flight [OF inv True]
  have res: "res = answer_of api rq"
    and stop: "isl res \<longrightarrow> \<not> (rq_retry rq < M \<and> 1 < n)"
    using transcribeWithRetry_Finished [OF fin g(1)] g(2,3) by (simp_all add: answer_of_def)
  have len: "length ?R \<le> M + 1" and R: "?R \<noteq> []"
    using inv unfolding chunk_inv_def by auto
  have last: "isl (answer_of api (last ?R)) \<longrightarrow> length ?R = M + 1 \<or> n \<le> 1"
  proof
    assume "isl (answer_of api (last ?R))"
    then have "isl res" using res f by simp
    then have "\<not> (rq_retry rq < M \<and> 1 < n)" using stop by simp
    moreover have "rq_retry rq = length ?R - 1" by (rule f(5))
    ultimately have "\<not> (length ?R - 1 < M \<and> 1 < n)" by simp
    then show "length ?R = M + 1 \<or> n \<le> 1"
      using len R by (cases ?R) auto
  qed
  have items: "filter (\<lambda>it. fst it = i) (items @ [(rq_index rq, res)]) = [(i, answer_of api (last ?R))]"
    using f True res by simp
  have pending: "requests_of i (before @ after) = []"
    using f by simp
  show ?thesis
    using inv last items pending unfolding chunk_inv_def by simp
qed

lemma chunk_inv_retried:
  assumes inv: "chunk_inv api M n i p (before @ rq # after) items sent"
    and retry: "transcribeWithRetry api rq g = (Retried rq', g')"
    and g: "maxRetries g = M" "length (apiKeys g) = n"
  shows "chunk_inv api M n i p (before @ rq' # after) items (sent @ [rq'])"
proof -
  note r = transcribeWithRetry_Retried [OF retry]
  have idx: "rq_index rq' = rq_index rq" and path: "rq_path rq' = rq_path rq"
    and num: "rq_retry rq' = rq_retry rq + 1"
    using r by simp_all
  show ?thesis
  proof (cases "rq_index rq = i")
    case False
    then show ?thesis using idx by (rule chunk_inv_other_retried [OF inv])
  next
    case True
    let ?R = "requests_of i sent"
    note f = chunk_inv_in_flight [OF inv True]
    have R: "?R \<noteq> []" and up: "map rq_retry ?R = [0 ..< length ?R]"
      and paths: "\<forall>r \<in> set ?R. rq_path r = p"
      and failed: "\<forall>r \<in> set (butlast ?R). isl (answer_of api r)"
      using inv unfolding chunk_inv_def by auto
    have sent': "requests_of i (sent @ [rq']) = ?R @ [rq']"
      using idx True by (simp add: requests_of_Cons)
    have rr: "rq_retry rq = length ?R - 1" by (rule f(5))
    have "rq_retry rq < M" using r g by simp
    then have len: "length ?R - 1 < M" using rr by simp
    have n: "1 < n" and fail: "isl (answer_of api rq)"
      using r g by (simp_all add: answer_of_def)
    have num': "rq_retry rq' = length ?R"
      using num f R by (cases ?R) auto
    have c1: "map rq_retry (?R @ [rq']) = [0 ..< length (?R @ [rq'])]"
      using up num' by simp
    have c2: "length (?R @ [rq']) \<le> M + 1"
      using len R by (cases ?R) auto
    have c3: "\<forall>r \<in> set (?R @ [rq']). rq_path r = p"
      using paths path f by simp
    have "set ?R = insert (last ?R) (set (butlast ?R))"
      using R by (metis append_butlast_last_id list.simps(15) rotate1.simps(2) set_rotate1)
    then have c4: "\<forall>r \<in> set (butlast (?R @ [rq'])). isl (answer_of api r)"
      using failed fail f by (simp add: butlast_append)
    have c5: "requests_of i (before @ rq' # after) = [last (?R @ [rq'])]"
      using f idx True by (simp add: requests_of_Cons)
    have c6: "filter (\<lambda>it. fst it = i) items = []"
      using f by simp
    show ?thesis
      unfolding chunk_inv_def sent' using c1 c2 c3 c4 c5 c6 n by simp
  qed
qed

subsection \<open>A chunk from dispatch to result\<close>

text \<open>The state of a chunk right after the dispatch of its batch.\<close>

lemma filter_upt_eq: "filter (\<lambda>t. i0 + t = i) [0 ..< n] = (if i0 \<le> i \<and> i < i0 + n then [i - i0] else [])"
  by (induction n) auto

lemma dispatchBatch_chunk_inv:
  assumes d: "dispatchBatch i0 batch g = (pending, items, g')"
    and c: "currentKeyIndex g < length (apiKeys g)"
    and i: "i0 \<le> i" "i < i0 + length batch"
  shows "chunk_inv api M n i (batch ! (i - i0)) pending items pending"
proof -
  let ?f = "\<lambda>t. \<lparr> rq_index = i0 + t, rq_path = batch ! t,
                   rq_key = apiKeys g ! ((currentKeyIndex g + t) mod length (apiKeys g)),
                   rq_retry = 0 \<rparr>"
  have p: "pending = map ?f [0 ..< length batch]" and it: "items = []"
    using dispatchBatch_requests [OF d c] by simp_all
  have "requests_of i pending = map ?f (filter (\<lambda>t. i0 + t = i) [0 ..< length batch])"
    unfolding p requests_of_def by (simp add: filter_map comp_def)
  then have one: "requests_of i pending = [?f (i - i0)]"
    using i by (simp add: filter_upt_eq)
  show ?thesis
    unfolding chunk_inv_def one using it by simp
qed

text \<open>The requests of a batch begin with the first requests of its chunks, in index order.\<close>

lemma completeBatch_sent_prefix:
  assumes "completeBatch api order pending items g sent = (items', g', sent')"
    and "take k sent = first" and "k \<le> length sent"
  shows "take k sent' = first"
proof -
  have "case completeBatch api order pending items g sent of
          (items', g', sent') \<Rightarrow> take k sent' = first \<and> k \<le> length sent'"
  proof (rule completeBatch_invariant
      [where I = "\<lambda>pending items g sent. take k sent = first \<and> k \<le> length sent"], goal_cases)
    case 1
    show ?case using assms(2,3) by simp
  next
    case (2 before rq after items g sent res g')
    then show ?case by simp
  next
    case (3 before rq after items g sent rq' g')
    then show ?case by simp
  qed
  then show ?thesis using assms(1) by simp
qed

lemma completeBatch_chunk_inv:
  assumes run: "completeBatch api order pending items g sent = (items', g', sent')"
    and inv: "chunk_inv api (maxRetries g) (length (apiKeys g)) i p pending items sent"
    and keys: "apiKeys g \<noteq> []"
  shows "chunk_inv api (maxRetries g) (length (apiKeys g)) i p [] items' sent'"
proof -
  let ?M = "maxRetries g" and ?K = "apiKeys g"
  let ?I = "\<lambda>pending items g1 sent.
      apiKeys g1 = ?K \<and> maxRetries g1 = ?M \<and> chunk_inv api ?M (length ?K) i p pending items sent"
  have "case completeBatch api order pending items g sent of
          (items', g', sent') \<Rightarrow> ?I [] items' g' sent'"
  proof (rule completeBatch_invariant [where I = ?I], goal_cases)
    case 1
    show ?case using inv by simp
  next
    case (2 before rq after items g1 sent res g2)
    have "g2 = g1" using 2(2) by (rule transcribeWithRetry_Finished_frame)
    moreover have "chunk_inv api ?M (length ?K) i p (before @ after) (items @ [(rq_index rq, res)]) sent"
      using 2 keys by (intro chunk_inv_finished [where g = g1 and g' = g2]) simp_all
    ultimately show ?case using 2(1) by simp
  next
    case (3 before rq after items g1 sent rq' g2)
    have "apiKeys g2 = apiKeys g1 \<and> maxRetries g2 = maxRetries g1"
      using transcribeWithRetry_Retried [OF 3(2)] by simp
    moreover have "chunk_inv api ?M (length ?K) i p (before @ rq' # after) items (sent @ [rq'])"
      using 3 by (intro chunk_inv_retried [where g = g1 and g' = g2 and rq = rq]) simp_all
    ultimately show ?case using 3(1) by simp
  qed
  then show ?thesis using run by simp
qed

lemma filter_sort_key_single:
  assumes "filter P xs = [x]"
  shows "filter P (sort_key f xs) = [x]"
proof -
  have "filter P (sort_key f xs) = sort_key f (filter P xs)"
    by (rule filter_sort)
  then show ?thesis using assms by simp
qed

lemma map_add_upt_left: "map (\<lambda>t. i0 + t) [0 ..< n] = [i0 ..< i0 + n]"
  by (induction n) simp_all

subsection \<open>The retry policy\<close>

text \<open>
  Claim C7. A batch of chunks is dispatched to the pool in the state \<open>g0\<close>, its cursor
  pointing at a key, and the answers arrive in any order (\<open>order\<close>); \<open>sent\<close> lists
  the requests of the batch in the order they were sent, \<open>items\<close> the results. For every
  chunk \<open>i\<close> of the batch: it sent at least one request and at most \<open>maxRetries\<close> after
  the first, with the retry counts 0, 1, 2 and so on, all for its own file; with exactly
  one key it sent one request only, and a second request means that there is more than
  one key; every request but its last was answered by a failure; its result is the
  answer to its last request, and a failure is final only when the retries are used up
  or there is one key. The keys: the first requests of the chunks come first, in index
  order, and request number \<open>t\<close> of the batch, first attempt or retry of whichever chunk,
  carries the key \<open>t\<close> places after the cursor of \<open>g0\<close> in the circular order; the cursor
  ends as many places further as requests were sent. So every retry takes the key the
  cursor points at when the failure arrives, and moves the cursor on by one. The cursor
  is shared: between two requests of one chunk the other chunks of the batch may have
  moved it, and the key of a retry can be the key of the attempt that failed.
\<close>

theorem retry_policy:
  assumes run: "processBatch api order i0 batch g0 = (items, g', sent)"
    and cursor: "currentKeyIndex g0 < length (apiKeys g0)"
    and chunk: "i0 \<le> i" "i < i0 + length batch"
  shows "requests_of i sent \<noteq> []
     \<and> length (requests_of i sent) \<le> maxRetries g0 + 1
     \<and> map rq_retry (requests_of i sent) = [0 ..< length (requests_of i sent)]
     \<and> (\<forall>r \<in> set (requests_of i sent). rq_path r = batch ! (i - i0))
     \<and> (length (apiKeys g0) = 1 \<longrightarrow> length (requests_of i sent) = 1)
     \<and> (1 < length (requests_of i sent) \<longrightarrow> 1 < length (apiKeys g0))
     \<and> (\<forall>r \<in> set (butlast (requests_of i sent)). isl (answer_of api r))
     \<and> filter (\<lambda>it. fst it = i) items = [(i, answer_of api (last (requests_of i sent)))]
     \<and> (isl (answer_of api (last (requests_of i sent)))
          \<longrightarrow> length (requests_of i sent) = maxRetries g0 + 1 \<or> length (apiKeys g0) = 1)
     \<and> map rq_index (take (length batch) sent) = [i0 ..< i0 + length batch]
     \<and> map rq_key sent =
         map (\<lambda>t. apiKeys g0 ! ((currentKeyIndex g0 + t) mod length (apiKeys g0))) [0 ..< length sent]
     \<and> currentKeyIndex g' = (currentKeyIndex g0 + length sent) mod length (apiKeys g0)"
proof -
  let ?R = "requests_of i sent" and ?M = "maxRetries g0" and ?K = "apiKeys g0"
  obtain pending rejected g1 where d: "dispatchBatch i0 batch g0 = (pending, rejected, g1)"
    by (cases "dispatchBatch i0 batch g0") auto
  obtain its g2 snt where c: "completeBatch api order pending rejected g1 pending = (its, g2, snt)"
    by (cases "completeBatch api order pending rejected g1 pending") auto
  have res: "items = sort_key fst its" "g' = g2" "sent = snt"
    using run d c by (simp_all add: processBatch_def)
  have keys: "?K \<noteq> []" using cursor by auto
  have g1: "apiKeys g1 = ?K" "maxRetries g1 = ?M"
    using dispatchBatch_frame [OF d] by simp_all
  have first: "pending = map (\<lambda>t. \<lparr> rq_index = i0 + t, rq_path = batch ! t,
                   rq_key = ?K ! ((currentKeyIndex g0 + t) mod length ?K), rq_retry = 0 \<rparr>)
                 [0 ..< length batch]"
    using dispatchBatch_requests [OF d cursor] by simp
  have "chunk_inv api (maxRetries g1) (length (apiKeys g1)) i (batch ! (i - i0)) pending rejected pending"
    by (rule dispatchBatch_chunk_inv [OF d cursor chunk])
  then have "chunk_inv api (maxRetries g1) (length (apiKeys g1)) i (batch ! (i - i0)) [] its snt"
    using keys g1 by (intro completeBatch_chunk_inv [OF c]) simp_all
  then have inv: "chunk_inv api ?M (length ?K) i (batch ! (i - i0)) [] its sent"
    using g1 res by simp
  have ne: "?R \<noteq> []" and len: "length ?R \<le> ?M + 1"
    and up: "map rq_retry ?R = [0 ..< length ?R]"
    and paths: "\<forall>r \<in> set ?R. rq_path r = batch ! (i - i0)"
    and more: "1 < length ?R \<longrightarrow> 1 < length ?K"
    and failed: "\<forall>r \<in> set (butlast ?R). isl (answer_of api r)"
    and item: "filter (\<lambda>it. fst it = i) its = [(i, answer_of api (last ?R))]"
    and final: "isl (answer_of api (last ?R)) \<longrightarrow> length ?R = ?M + 1 \<or> length ?K \<le> 1"
    using inv unfolding chunk_inv_def by simp_all
  have one: "length ?K \<le> 1 \<longleftrightarrow> length ?K = 1"
    using keys by (cases ?K) auto
  have single: "length ?K = 1 \<longrightarrow> length ?R = 1"
    using more ne by (cases ?R) auto
  have items: "filter (\<lambda>it. fst it = i) items = [(i, answer_of api (last ?R))]"
    unfolding res(1) by (rule filter_sort_key_single [OF item])
  have "take (length batch) snt = pending"
    using first by (intro completeBatch_sent_prefix [OF c]) simp_all
  then have prefix: "map rq_index (take (length batch) sent) = [i0 ..< i0 + length batch]"
    unfolding res(3) first by (simp add: comp_def map_add_upt_left)
  have "in_rotation ?K (currentKeyIndex g0) g' sent"
    by (rule processBatch_rotation [OF run cursor])
  then have rot: "map rq_key sent = map (\<lambda>t. ?K ! ((currentKeyIndex g0 + t) mod length ?K)) [0 ..< length sent]"
    and cur: "currentKeyIndex g' = (currentKeyIndex g0 + length sent) mod length ?K"
    unfolding in_rotation_def by simp_all
  show ?thesis
    using ne len up paths single more failed items final one prefix rot cur by simp
qed

text \<open>
  Two chunks, the keys \<open>key-A\<close> and \<open>key-B\<close>, every request answered by a 429, the
  answers to chunk 0 arriving first. Chunk 0 takes \<open>key-A\<close> and chunk 1 takes \<open>key-B\<close>,
  which brings the cursor back to \<open>key-A\<close>: the three retries of chunk 0 are sent with
  \<open>key-A\<close>, \<open>key-B\<close>, \<open>key-A\<close>, and the eight requests of the batch alternate between
  the two keys.
\<close>

lemma ex_batch_run:
  "processBatch ex_failing_api (\<lambda>pending. 0) 0 ex_batch ex_pool =
     ([(0, ex_failure), (1, ex_failure)], ex_pool, ex_sent)"
  by (simp add: processBatch_def completeBatch.simps transcribeWithRetry_def groq_processChunk_def
      getNextApiKey_def transcribeChunk_def ex_failing_api_def ex_pool_def new_GroqProcessor_def
      nat_or_def ex_batch_def ex_failure_def ex_sent_def ex_request_def Let_def)

theorem retry_policy_witness:
  "processBatch ex_failing_api (\<lambda>pending. 0) 0 ex_batch ex_pool =
     ([(0, ex_failure), (1, ex_failure)], ex_pool, ex_sent)
   \<and> currentKeyIndex ex_pool < length (apiKeys ex_pool)
   \<and> map rq_key (requests_of 0 ex_sent) = [''key-A'', ''key-A'', ''key-B'', ''key-A'']
   \<and> map rq_retry (requests_of 0 ex_sent) = [0, 1, 2, 3]
   \<and> length (requests_of 0 ex_sent) = maxRetries ex_pool + 1
   \<and> answer_of ex_failing_api (last (requests_of 0 ex_sent)) = ex_failure
   \<and> map rq_key ex_sent =
       [''key-A'', ''key-B'', ''key-A'', ''key-B'', ''key-A'', ''key-B'', ''key-A'', ''key-B'']"
  using retry_policy [OF ex_batch_run, of 0] ex_batch_run
  by (simp add: ex_pool_def new_GroqProcessor_def nat_or_def ex_batch_def ex_sent_def ex_request_def
      requests_of_def answer_of_def transcribeChunk_def ex_failing_api_def ex_failure_def)

section \<open>Properties of the Transcription Orchestrator\<close>

subsection \<open>The job slot\<close>

text \<open>With batches of at least one chunk the loop over the batches ends.\<close>

lemma processBatches_total:
  assumes "0 < maxConcurrent g"
  shows "\<exists>res g'. processBatches api order chunkPaths i results g = Some (res, g')
            \<and> maxConcurrent g' = maxConcurrent g"
  using assms
proof (induction "length chunkPaths - i" arbitrary: i results g rule: less_induct)
  case less
  show ?case
  proof (cases "i < length chunkPaths")
    case False
    then show ?thesis by (subst processBatches.simps) simp
  next
    case True
    obtain items g1 sent where batch:
      "processBatch api order i (take (maxConcurrent g) (drop i chunkPaths)) g = (items, g1, sent)"
      by (cases "processBatch api order i (take (maxConcurrent g) (drop i chunkPaths)) g") auto
    have g1: "maxConcurrent g1 = maxConcurrent g"
      using processBatch_frame [OF batch] by simp
    have smaller: "length chunkPaths - (i + maxConcurrent g) < length chunkPaths - i"
      using True less.prems by simp
    have pos1: "0 < maxConcurrent g1"
      using less.prems g1 by simp
    have "\<exists>res g'. processBatches api order chunkPaths (i + maxConcurrent g) (storeResults items results) g1
              = Some (res, g') \<and> maxConcurrent g' = maxConcurrent g1"
      by (rule less.hyps [OF smaller pos1])
    then show ?thesis
      using True batch g1 by (subst processBatches.simps) simp
  qed
qed

lemma processChunksParallel_total:
  assumes "0 < maxConcurrent g"
  shows "\<exists>ts g'. processChunksParallel api order chunkPaths g = Some (ts, g')
            \<and> maxConcurrent g' = maxConcurrent g"
proof -
  obtain res g' where "processBatches api order chunkPaths 0 Map.empty g = Some (res, g')"
    and "maxConcurrent g' = maxConcurrent g"
    using processBatches_total [OF assms] by blast
  then show ?thesis by (simp add: processChunksParallel_def)
qed

lemma new_WhisperProcessor_ready:
  "pool_ready (new_WhisperProcessor opts) \<and> \<not> isProcessing (new_WhisperProcessor opts)
     \<and> currentJob (new_WhisperProcessor opts) = None"
  by (simp add: pool_ready_def new_WhisperProcessor_def new_GroqProcessor_def nat_or_def Let_def
      split: option.splits)

lemma processAudio_try_total:
  assumes "pool_ready wp"
  shows "\<exists>r wp'. processAudio_try w audioPath outputDir wp = Some (r, wp')
            \<and> pool_ready wp' \<and> r \<noteq> Inl AlreadyInProgress"
proof (cases "w_mkdir w")
  case (Some msg)
  then show ?thesis using assms by (simp add: processAudio_try_def)
next
  case None
  note mk = None
  show ?thesis
  proof (cases "w_split w")
    case (Inl msg)
    then show ?thesis using assms mk by (simp add: processAudio_try_def)
  next
    case (Inr chunks)
    let ?dispatch =
      "(if useGroq wp \<and> groqProcessor wp \<noteq> None \<and> length (apiKeys (the (groqProcessor wp))) > 0 then
           (case w_dispatch_error w of
              Some msg \<Rightarrow> Some ([], wp\<lparr> useGroq := False \<rparr>)
            | None \<Rightarrow>
                (case processChunksParallel (w_groq w) (w_order w) chunks (the (groqProcessor wp)) of
                   None \<Rightarrow> None
                 | Some (groqTranscripts, g') \<Rightarrow>
                     Some (adjustGroqTranscripts (chunkDuration wp) groqTranscripts,
                           wp\<lparr> groqProcessor := Some g' \<rparr>)))
         else Some ([], wp))"
    have "\<exists>ts wp1. ?dispatch = Some (ts, wp1) \<and> pool_ready wp1"
    proof (cases "useGroq wp \<and> groqProcessor wp \<noteq> None \<and> length (apiKeys (the (groqProcessor wp))) > 0")
      case False
      then show ?thesis using assms by auto
    next
      case True
      then obtain g where g: "groqProcessor wp = Some g" by auto
      have pos: "0 < maxConcurrent g" using assms g by (simp add: pool_ready_def)
      show ?thesis
      proof (cases "w_dispatch_error w")
        case (Some msg)
        then show ?thesis using True assms by (simp add: pool_ready_def)
      next
        case None
        obtain ts g' where "processChunksParallel (w_groq w) (w_order w) chunks g = Some (ts, g')"
          and "maxConcurrent g' = maxConcurrent g"
          using processChunksParallel_total [OF pos] by blast
        then show ?thesis using True None g pos by (simp add: pool_ready_def)
      qed
    qed
    then obtain ts wp1 where d: "?dispatch = Some (ts, wp1)" and ready: "pool_ready wp1"
      by blast
    show ?thesis
      unfolding processAudio_try_def
      using mk Inr ready
      by (simp only: d option.case sum.case prod.case Let_def)
         (auto split: option.splits)
  qed
qed

text \<open>One call: the \<^verbatim>\<open>finally\<close> block runs on every path out of the \<^verbatim>\<open>try\<close> block.\<close>

lemma processAudio_released:
  assumes "pool_ready wp" and "\<not> isProcessing wp"
  shows "\<exists>r wp'. processAudio w audioPath outputDir wp = Some (r, wp')
            \<and> pool_ready wp' \<and> \<not> isProcessing wp' \<and> currentJob wp' = None
            \<and> r \<noteq> Inl AlreadyInProgress"
proof -
  let ?wp = "wp\<lparr> isProcessing := True,
                 currentJob := Some \<lparr> job_audioPath = audioPath, job_outputDir = outputDir,
                                      job_startTime = w_now w \<rparr> \<rparr>"
  have "pool_ready ?wp" using assms(1) by (simp add: pool_ready_def)
  from processAudio_try_total [OF this]
  obtain r wp' where "processAudio_try w audioPath outputDir ?wp = Some (r, wp')"
    and "pool_ready wp'" and "r \<noteq> Inl AlreadyInProgress"
    by blast
  then show ?thesis using assms(2) by (simp add: processAudio_def pool_ready_def)
qed

lemma run_jobs_released:
  assumes "pool_ready wp" and "\<not> isProcessing wp" and "currentJob wp = None"
  shows "\<exists>rs wp'. run_jobs jobs wp = Some (rs, wp')
            \<and> \<not> isProcessing wp' \<and> currentJob wp' = None
            \<and> Inl AlreadyInProgress \<notin> set rs"
  using assms
proof (induction jobs arbitrary: wp)
  case Nil
  then show ?case by simp
next
  case (Cons j jobs)
  obtain w audioPath outputDir where j: "j = (w, audioPath, outputDir)" by (cases j)
  from processAudio_released [OF Cons.prems(1,2)]
  obtain r wp1 where one: "processAudio w audioPath outputDir wp = Some (r, wp1)"
    and inv: "pool_ready wp1" "\<not> isProcessing wp1" "currentJob wp1 = None"
    and r: "r \<noteq> Inl AlreadyInProgress"
    by blast
  from Cons.IH [OF inv]
  obtain rs wp' where "run_jobs jobs wp1 = Some (rs, wp')"
    and "\<not> isProcessing wp'" "currentJob wp' = None" "Inl AlreadyInProgress \<notin> set rs"
    by blast
  then show ?case using j one r by auto
qed

text \<open>
  Claim C10. Take a processor as its constructor makes it and call \<open>processAudio\<close> any
  number of times, one call after the other, whatever the world answers (a failing
  \<open>mkdir\<close>, split, dispatch or write included). Every call returns or throws; after
  the last one the in-progress flag is off and the job slot is empty; and no call was
  rejected because a transcription was already in progress. The list of calls is
  arbitrary, so this holds after each call of any such history.
\<close>

theorem job_slot_released:
  "\<exists>rs wp'. run_jobs jobs (new_WhisperProcessor opts) = Some (rs, wp')
      \<and> isProcessing wp' = False \<and> currentJob wp' = None
      \<and> Inl AlreadyInProgress \<notin> set rs"
  using run_jobs_released [of "new_WhisperProcessor opts" jobs] new_WhisperProcessor_ready [of opts]
  by simp

text \<open>A call that finds the flag set is rejected and leaves the state as it is.\<close>

lemma processAudio_busy:
  "isProcessing wp \<Longrightarrow> processAudio w audioPath outputDir wp = Some (Inl AlreadyInProgress, wp)"
  by (simp add: processAudio_def)

text \<open>
  A job whose split fails, followed by a job that succeeds: the first call throws, the
  second is accepted, and the slot is free at the end.
\<close>

theorem job_slot_released_witness:
  "map_option (map isl \<circ> fst)
      (run_jobs [(failing_split_world, ''meeting.wav'', ''out''), (scenario_world, ''meeting.wav'', ''out'')]
         (new_WhisperProcessor local_options)) = Some [True, False]
   \<and> (\<exists>rs wp'.
         run_jobs [(failing_split_world, ''meeting.wav'', ''out''), (scenario_world, ''meeting.wav'', ''out'')]
           (new_WhisperProcessor local_options) = Some (rs, wp')
         \<and> isProcessing wp' = False \<and> currentJob wp' = None
         \<and> Inl AlreadyInProgress \<notin> set rs)"
proof -
  have "map_option (map isl \<circ> fst)
      (run_jobs [(failing_split_world, ''meeting.wav'', ''out''), (scenario_world, ''meeting.wav'', ''out'')]
         (new_WhisperProcessor local_options)) = Some [True, False]"
    by (simp add: processAudio_def processAudio_try_def new_WhisperProcessor_def local_options_def
        failing_split_world_def scenario_world_def real_or_def cp_processChunk_def Let_def)
  then show ?thesis
    using job_slot_released
      [of "[(failing_split_world, ''meeting.wav'', ''out''), (scenario_world, ''meeting.wav'', ''out'')]"
          local_options]
    by simp
qed

subsection \<open>The scenario of three chunks\<close>

text \<open>The merged transcript of the scenario, with the local worker and with the pool.\<close>

lemma scenario_local:
  "merged_of (processAudio scenario_world ''meeting.wav'' ''out'' (new_WhisperProcessor local_options)) =
     Some \<lparr> m_text = ''Hello World'',
            m_segments =
              [\<lparr> seg_id = 0, seg_start = 0, seg_end = 2, seg_text = ''Hello'', seg_words = None \<rparr>,
               \<lparr> seg_id = 0, seg_start = 120, seg_end = 122, seg_text = ''World'', seg_words = None \<rparr>],
            m_language = ''en'', m_duration = 122, m_chunkCount = 2, m_segmentCount = 2 \<rparr>"
  by (simp add: merged_of_def processAudio_def processAudio_try_def new_WhisperProcessor_def
      local_options_def scenario_world_def real_or_def cp_processChunk_def adjustTimestamps_def
      hello_result_def world_result_def merge_def as_transcript_def as_in_segment_def
      normalizeTranscript_def adjustSegment_def deduplicateSegments_def dedup_step_def
      combineText_def trim_def is_space_def find_language_def str_or_def path_join_def Let_def)

lemma scenario_groq:
  "merged_of (processAudio scenario_world ''meeting.wav'' ''out'' (new_WhisperProcessor groq_options)) =
     Some \<lparr> m_text = ''Hello World'',
            m_segments =
              [\<lparr> seg_id = 0, seg_start = 0, seg_end = 2, seg_text = ''Hello'', seg_words = None \<rparr>,
               \<lparr> seg_id = 0, seg_start = 120, seg_end = 122, seg_text = ''World'', seg_words = None \<rparr>],
            m_language = ''en'', m_duration = 122, m_chunkCount = 2, m_segmentCount = 2 \<rparr>"
  by (simp add: merged_of_def processAudio_def processAudio_try_def new_WhisperProcessor_def
      groq_options_def scenario_world_def real_or_def nat_or_def new_GroqProcessor_def
      processChunksParallel_def processBatches.simps storeResults_def processBatch_def
      completeBatch.simps transcribeWithRetry_def groq_processChunk_def
      getNextApiKey_def transcribeChunk_def convertGroqFormat_def
      num_or0_def adjustGroqTranscripts_def List.map_filter_def adjustTimestamps_def
      hello_body_def world_body_def merge_def as_transcript_def as_in_segment_def
      normalizeTranscript_def adjustSegment_def deduplicateSegments_def dedup_step_def
      combineText_def trim_def is_space_def find_language_def str_or_def path_join_def Let_def)

text \<open>
  Claim C1 fails on the code. Chunk 1 (index 1, 60 seconds per chunk) is transcribed
  with the chunk-local segment 0 to 2; in the merged transcript it lies at 120 to 122
  and not at 60 to 62. The offset is added twice: once before the transcripts reach the
  merger (by the local worker, or by the loop over the pool's results) and once more by
  the merger's normalisation.
\<close>

theorem chunk_offset_applied_twice:
  "map_option (map (\<lambda>s. (seg_text s, seg_start s, seg_end s)) \<circ> m_segments)
     (merged_of (processAudio scenario_world ''meeting.wav'' ''out''
        (new_WhisperProcessor local_options))) =
     Some [(''Hello'', 0, 2), (''World'', 120, 122)]
   \<and> map_option (map (\<lambda>s. (seg_text s, seg_start s, seg_end s)) \<circ> m_segments)
     (merged_of (processAudio scenario_world ''meeting.wav'' ''out''
        (new_WhisperProcessor groq_options))) =
     Some [(''Hello'', 0, 2), (''World'', 120, 122)]"
proof -
  note local_run = scenario_local and pool_run = scenario_groq
  have "map_option (map (\<lambda>s. (seg_text s, seg_start s, seg_end s)) \<circ> m_segments)
     (merged_of (processAudio scenario_world ''meeting.wav'' ''out''
        (new_WhisperProcessor local_options))) =
     Some [(''Hello'', 0, 2), (''World'', 120, 122)]"
    by (simp add: local_run)
  moreover have "map_option (map (\<lambda>s. (seg_text s, seg_start s, seg_end s)) \<circ> m_segments)
     (merged_of (processAudio scenario_world ''meeting.wav'' ''out''
        (new_WhisperProcessor groq_options))) =
     Some [(''Hello'', 0, 2), (''World'', 120, 122)]"
    by (simp add: pool_run)
  ultimately show ?thesis by simp
qed

text \<open>
  Claim C3, as the code has it by design. In the scenario the merged transcript has the
  text \<open>Hello World\<close>, two segments with the texts \<open>Hello\<close> and \<open>World\<close>, the first of
  them from 0 to 2, a segment count of 2, and a chunk count of 2: the merger counts the
  transcripts it receives, and the chunk that failed is not among them. This holds with
  the local worker and with the pool.
\<close>

theorem scenario_merged_transcript:
  "map_option m_text
     (merged_of (processAudio scenario_world ''meeting.wav'' ''out''
        (new_WhisperProcessor local_options))) = Some ''Hello World''
   \<and> map_option (map seg_text \<circ> m_segments)
     (merged_of (processAudio scenario_world ''meeting.wav'' ''out''
        (new_WhisperProcessor local_options))) = Some [''Hello'', ''World'']
   \<and> map_option (take 1 \<circ> m_segments)
     (merged_of (processAudio scenario_world ''meeting.wav'' ''out''
        (new_WhisperProcessor local_options))) =
       Some [\<lparr> seg_id = 0, seg_start = 0, seg_end = 2, seg_text = ''Hello'', seg_words = None \<rparr>]
   \<and> map_option m_chunkCount
     (merged_of (processAudio scenario_world ''meeting.wav'' ''out''
        (new_WhisperProcessor local_options))) = Some 2
   \<and> map_option m_segmentCount
     (merged_of (processAudio scenario_world ''meeting.wav'' ''out''
        (new_WhisperProcessor local_options))) = Some 2
   \<and> map_option m_text
     (merged_of (processAudio scenario_world ''meeting.wav'' ''out''
        (new_WhisperProcessor groq_options))) = Some ''Hello World''
   \<and> map_option (map seg_text \<circ> m_segments)
     (merged_of (processAudio scenario_world ''meeting.wav'' ''out''
        (new_WhisperProcessor groq_options))) = Some [''Hello'', ''World'']
   \<and> map_option (take 1 \<circ> m_segments)
     (merged_of (processAudio scenario_world ''meeting.wav'' ''out''
        (new_WhisperProcessor groq_options))) =
       Some [\<lparr> seg_id = 0, seg_start = 0, seg_end = 2, seg_text = ''Hello'', seg_words = None \<rparr>]
   \<and> map_option m_chunkCount
     (merged_of (processAudio scenario_world ''meeting.wav'' ''out''
        (new_WhisperProcessor groq_options))) = Some 2
   \<and> map_option m_segmentCount
     (merged_of (processAudio scenario_world ''meeting.wav'' ''out''
        (new_WhisperProcessor groq_options))) = Some 2"
proof -
  have local_run:
    "map_option f (merged_of (processAudio scenario_world ''meeting.wav'' ''out''
        (new_WhisperProcessor local_options))) =
     Some (f \<lparr> m_text = ''Hello World'',
            m_segments =
              [\<lparr> seg_id = 0, seg_start = 0, seg_end = 2, seg_text = ''Hello'', seg_words = None \<rparr>,
               \<lparr> seg_id = 0, seg_start = 120, seg_end = 122, seg_text = ''World'', seg_words = None \<rparr>],
            m_language = ''en'', m_duration = 122, m_chunkCount = 2, m_segmentCount = 2 \<rparr>)"
    for f :: "merged \<Rightarrow> 'a"
    by (simp add: scenario_local)
  have pool_run:
    "map_option f (merged_of (processAudio scenario_world ''meeting.wav'' ''out''
        (new_WhisperProcessor groq_options))) =
     Some (f \<lparr> m_text = ''Hello World'',
            m_segments =
              [\<lparr> seg_id = 0, seg_start = 0, seg_end = 2, seg_text = ''Hello'', seg_words = None \<rparr>,
               \<lparr> seg_id = 0, seg_start = 120, seg_end = 122, seg_text = ''World'', seg_words = None \<rparr>],
            m_language = ''en'', m_duration = 122, m_chunkCount = 2, m_segmentCount = 2 \<rparr>)"
    for f :: "merged \<Rightarrow> 'a"
    by (simp add: scenario_groq)
  show ?thesis
    unfolding local_run pool_run by simp
qed

text \<open>Claim C3 as stated fails: the chunk count of the scenario is 2, not 3.\<close>

theorem scenario_chunk_count_counterexample:
  "map_option m_chunkCount
     (merged_of (processAudio scenario_world ''meeting.wav'' ''out''
        (new_WhisperProcessor local_options))) = Some 2
   \<and> map_option m_chunkCount
     (merged_of (processAudio scenario_world ''meeting.wav'' ''out''
        (new_WhisperProcessor local_options))) \<noteq> Some 3"
  by (simp add: scenario_local)

section \<open>Properties of the Recording Session Controller\<close>

subsection \<open>Pausing and resuming\<close>

lemma pause_success:
  assumes "mgr_pauseRecording outcome now m = (Success, m1)"
  shows "\<exists>cur. currentRecording m = Some cur \<and> \<not> isPaused m
          \<and> currentRecording m1 = Some (cur\<lparr> rec_gaps := rec_gaps cur @
                 [\<lparr> gap_start = now, gap_end = None, gap_duration = None \<rparr>] \<rparr>)
          \<and> isPaused m1 \<and> pauseStartTime m1 = Some now"
  using assms
  by (auto simp: mgr_pauseRecording_def split: option.splits if_splits prod.splits sum.splits)

lemma resume_success:
  assumes "mgr_resumeRecording segmentPath resumeTime now2 m1 = (Success, m2)"
    and "currentRecording m1 = Some cur1" and "pauseStartTime m1 = Some p"
    and "rec_gaps cur1 = gs @ [g]"
  shows "\<exists>cur2. currentRecording m2 = Some cur2 \<and> \<not> isPaused m2
          \<and> rec_gaps cur2 = gs @ [g\<lparr> gap_end := Some resumeTime, gap_duration := Some (resumeTime - p) \<rparr>]
          \<and> length (rec_segments cur2) = length (rec_segments cur1) + 1"
  using assms
  by (auto simp: mgr_resumeRecording_def Let_def split: option.splits if_splits prod.splits)

lemma pause_resume_success:
  assumes "pause_resume segmentPath cycles m = (results, m')"
    and "\<forall>r \<in> set results. r = Success"
    and "currentRecording m = Some cur"
  shows "\<exists>cur'. currentRecording m' = Some cur'
          \<and> rec_gaps cur' = rec_gaps cur @ map closed_gap cycles
          \<and> length (rec_segments cur') = length (rec_segments cur) + length cycles"
  using assms
proof (induction cycles arbitrary: m results cur)
  case Nil
  then show ?case by simp
next
  case (Cons c cs)
  obtain r1 m1 where p: "mgr_pauseRecording (c_stop c) (c_pauseTime c) m = (r1, m1)"
    by (cases "mgr_pauseRecording (c_stop c) (c_pauseTime c) m") auto
  obtain r2 m2 where r: "mgr_resumeRecording segmentPath (c_resumeTime c) (c_segmentTime c) m1 = (r2, m2)"
    by (cases "mgr_resumeRecording segmentPath (c_resumeTime c) (c_segmentTime c) m1") auto
  obtain rs m3 where rest: "pause_resume segmentPath cs m2 = (rs, m3)"
    by (cases "pause_resume segmentPath cs m2") auto
  have res: "results = r1 # r2 # rs" and m3: "m3 = m'"
    using Cons.prems(1) p r rest by simp_all
  have s1: "r1 = Success" and s2: "r2 = Success" and srest: "\<forall>r \<in> set rs. r = Success"
    using Cons.prems(2) res by simp_all
  from pause_success [OF p [unfolded s1]] Cons.prems(3)
  have m1: "currentRecording m1 = Some (cur\<lparr> rec_gaps := rec_gaps cur @
                 [\<lparr> gap_start = c_pauseTime c, gap_end = None, gap_duration = None \<rparr>] \<rparr>)"
    and ps: "pauseStartTime m1 = Some (c_pauseTime c)"
    by auto
  from resume_success [OF r [unfolded s2] m1 ps]
  obtain cur2 where cur2: "currentRecording m2 = Some cur2"
    and g2: "rec_gaps cur2 = rec_gaps cur @ [closed_gap c]"
    and l2: "length (rec_segments cur2) = length (rec_segments cur) + 1"
    by (auto simp: closed_gap_def)
  from Cons.IH [OF rest [unfolded m3] srest cur2] g2 l2
  show ?case by auto
qed


lemma start_success:
  assumes "mgr_startRecording opts now1 now2 m = (None, m0)"
  shows "\<exists>cur. currentRecording m0 = Some cur \<and> rec_gaps cur = []
          \<and> length (rec_segments cur) = 1 \<and> rec_startTime cur = now1"
  using assms
  by (auto simp: mgr_startRecording_def Let_def split: if_splits prod.splits option.splits)

text \<open>
  Claim C4. A session is started once (\<open>started\<close>) and then paused and resumed
  \<open>N = length cycles\<close> times in turn, every operation reporting success. At the end the
  session holds \<open>N + 1\<close> segments and \<open>N\<close> gaps, and the gap of each round starts at
  the time of its pause, ends at the time of its resume, and has their difference as
  its duration.
\<close>

theorem pause_resume_counts:
  assumes started: "mgr_startRecording opts now1 now2 m_init = (None, m0)"
    and run: "pause_resume segmentPath cycles m0 = (results, m)"
    and ok: "\<forall>r \<in> set results. r = Success"
  shows "\<exists>cur. currentRecording m = Some cur
          \<and> length (rec_segments cur) = length cycles + 1
          \<and> length (rec_gaps cur) = length cycles
          \<and> rec_gaps cur =
              map (\<lambda>c. \<lparr> gap_start = c_pauseTime c, gap_end = Some (c_resumeTime c),
                          gap_duration = Some (c_resumeTime c - c_pauseTime c) \<rparr>) cycles"
proof -
  from start_success [OF started] obtain cur0 where
    c0: "currentRecording m0 = Some cur0" "rec_gaps cur0 = []" "length (rec_segments cur0) = 1"
    by auto
  from pause_resume_success [OF run ok c0(1)] c0(2,3)
  show ?thesis by (auto simp: closed_gap_def [abs_def])
qed

text \<open>Two rounds: paused at 10 s and resumed at 15 s, paused at 20 s and resumed at 20.5 s.\<close>

lemma ex_started_eval: "mgr_startRecording ex_start_options 0 0 new_RecordingManager = (None, ex_started)"
  by (simp add: ex_started_def mgr_startRecording_def ex_start_options_def new_RecordingManager_def
      new_FFmpegRecorder_def rec_startRecording_def missing_def str_or_def Let_def)

lemma ex_run: "fst (pause_resume ex_segmentPath ex_cycles ex_started) = [Success, Success, Success, Success]"
  by (simp add: ex_started_def mgr_startRecording_def ex_start_options_def new_RecordingManager_def
      new_FFmpegRecorder_def rec_startRecording_def missing_def str_or_def Let_def
      ex_cycles_def mgr_pauseRecording_def mgr_resumeRecording_def rec_stopRecording_def ex_segmentPath_def)

theorem pause_resume_counts_witness:
  "mgr_startRecording ex_start_options 0 0 new_RecordingManager = (None, ex_started)
   \<and> fst (pause_resume ex_segmentPath ex_cycles ex_started) = [Success, Success, Success, Success]
   \<and> (\<exists>cur. currentRecording (snd (pause_resume ex_segmentPath ex_cycles ex_started)) = Some cur
          \<and> length (rec_segments cur) = 3
          \<and> rec_gaps cur =
               [\<lparr> gap_start = 10000, gap_end = Some 15000, gap_duration = Some 5000 \<rparr>,
                \<lparr> gap_start = 20000, gap_end = Some 20500, gap_duration = Some 500 \<rparr>])"
proof -
  have run: "pause_resume ex_segmentPath ex_cycles ex_started =
      (fst (pause_resume ex_segmentPath ex_cycles ex_started), snd (pause_resume ex_segmentPath ex_cycles ex_started))"
    by simp
  have ok: "\<forall>r \<in> set (fst (pause_resume ex_segmentPath ex_cycles ex_started)). r = Success"
    by (simp add: ex_run)
  have len: "length ex_cycles = 2"
    by (simp add: ex_cycles_def)
  have gaps: "map (\<lambda>c. \<lparr> gap_start = c_pauseTime c, gap_end = Some (c_resumeTime c),
                          gap_duration = Some (c_resumeTime c - c_pauseTime c) \<rparr>) ex_cycles =
      [\<lparr> gap_start = 10000, gap_end = Some 15000, gap_duration = Some 5000 \<rparr>,
       \<lparr> gap_start = 20000, gap_end = Some 20500, gap_duration = Some 500 \<rparr>]"
    by (simp add: ex_cycles_def)
  show ?thesis
    using pause_resume_counts [OF ex_started_eval run ok] ex_started_eval ex_run
    by (auto simp: len gaps)
qed

subsection \<open>The Segment Concatenator\<close>

text \<open>Every failure of the concatenating process is reported with a message.\<close>

lemma mergeSegments_message:
  "cw_writeList cw = None \<Longrightarrow> mergeSegments cw segments outputPath files = (Some msg, files') \<Longrightarrow> msg \<noteq> []"
  by (auto simp: mergeSegments_def Let_def split: concat_outcome.splits if_splits)

text \<open>
  What the exit handler deletes: the list file and, from the second segment on, every
  segment file that \<^verbatim>\<open>fs.unlink\<close> manages to delete, whatever the exit code is.
\<close>

lemma fold_unlink:
  "fold (\<lambda>seg fs. unlink cw (rs_path seg) fs) segs files =
     files - {p \<in> rs_path ` set segs. cw_unlink_ok cw p}"
  by (induction segs arbitrary: files) (auto simp: unlink_def)

lemma mergeSegments_exit_success:
  assumes "cw_writeList cw = None" and "cw_ffmpeg cw = Exit 0 errorOutput"
  shows "mergeSegments cw segments outputPath files =
     (None,
      insert outputPath
        (unlink cw (path_join (cw_dirname cw outputPath) ''concat_list.txt'')
           (insert (path_join (cw_dirname cw outputPath) ''concat_list.txt'') files)
         - {p \<in> rs_path ` set (drop 1 segments). cw_unlink_ok cw p}))"
  using assms by (simp add: mergeSegments_def Let_def fold_unlink)

lemma mergeSegments_exit_failure:
  assumes "cw_writeList cw = None" and "cw_ffmpeg cw = Exit code errorOutput" and "code \<noteq> 0"
  shows "mergeSegments cw segments outputPath files =
     (Some (''Failed to merge segments: '' @ take 500 errorOutput),
      unlink cw (path_join (cw_dirname cw outputPath) ''concat_list.txt'')
        (insert (path_join (cw_dirname cw outputPath) ''concat_list.txt'') files)
      - {p \<in> rs_path ` set (drop 1 segments). cw_unlink_ok cw p})"
  using assms by (simp add: mergeSegments_def Let_def fold_unlink)

text \<open>A failure before the process runs leaves every file in place.\<close>

lemma mergeSegments_no_run_keeps_files:
  "cw_writeList cw = Some msg \<Longrightarrow> snd (mergeSegments cw segments outputPath files) = files"
  by (simp add: mergeSegments_def Let_def)

text \<open>
  Claim C6 fails on the code. Two segment files, the concatenating process exits with
  code 1: the failure is reported, and the second segment file has been deleted all the
  same, because the exit handler deletes the segments before it looks at the code.
\<close>

theorem merge_failure_deletes_segments:
  "mergeSegments ex_concat_failure ex_segments ''rec.wav'' ex_files =
     (Some ''Failed to merge segments: Invalid data found when processing input'', {''rec.wav''})"
  by (simp add: mergeSegments_def ex_concat_failure_def ex_segments_def ex_files_def unlink_def
      path_join_def Let_def insert_Diff_if)

subsection \<open>Stopping\<close>

text \<open>
  Claim C5, as the code has it by design. An active session is stopped, the adapter
  stops cleanly (\<open>st_success\<close>), there is more than one segment, and the concatenation
  fails with a message. Then \<open>stopRecording\<close> does not throw and does not answer with
  the bare error object: it answers with the output path, the duration, the gaps, the
  segments and the message of the merge error, and the success flag of this answer is
  false. The session is cleared.
\<close>

theorem stop_reports_merge_failure:
  assumes "currentRecording m = Some cur"
    and "rec_stopRecording (sw_stop sw) (recorder m) = (Inr info, r')"
    and "st_success info"
    and "length (rec_segments cur) > 1"
    and "mergeSegments (sw_concat sw) (rec_segments cur) (rec_outputPath cur) files = (Some msg, files')"
    and "msg \<noteq> []"
  shows "mgr_stopRecording sw m files =
     (StopResult False (rec_outputPath cur) (sw_now sw - rec_startTime cur)
        (rec_gaps cur) (rec_segments cur) (Some msg),
      m\<lparr> recorder := r', currentRecording := None, isPaused := False, pauseStartTime := None \<rparr>,
      files')"
  using assms by (simp add: mgr_stopRecording_def falsy_def)

theorem stop_reports_merge_failure_witness:
  "currentRecording ex_manager = Some ex_recording
   \<and> rec_stopRecording (sw_stop ex_stop_world) (recorder ex_manager) =
       (Inr \<lparr> st_success = True, st_error = None, st_forced = False \<rparr>,
        \<lparr> r_isRecording = False, r_process = False, r_outputPath = Some ''rec_segment2.wav'' \<rparr>)
   \<and> length (rec_segments ex_recording) = 2
   \<and> mergeSegments (sw_concat ex_stop_world) (rec_segments ex_recording) (rec_outputPath ex_recording) ex_files =
       (Some ''Failed to merge segments: Invalid data found when processing input'', {''rec.wav''})
   \<and> mgr_stopRecording ex_stop_world ex_manager ex_files =
       (StopResult False ''rec.wav'' 30000
         [\<lparr> gap_start = 10000, gap_end = Some 15000, gap_duration = Some 5000 \<rparr>] ex_segments
         (Some ''Failed to merge segments: Invalid data found when processing input''),
        \<lparr> recorder = \<lparr> r_isRecording = False, r_process = False, r_outputPath = Some ''rec_segment2.wav'' \<rparr>,
          currentRecording = None, isPaused = False, pauseStartTime = None \<rparr>,
        {''rec.wav''})"
proof -
  have cur: "currentRecording ex_manager = Some ex_recording"
    by (simp add: ex_manager_def)
  have stop: "rec_stopRecording (sw_stop ex_stop_world) (recorder ex_manager) =
       (Inr \<lparr> st_success = True, st_error = None, st_forced = False \<rparr>,
        \<lparr> r_isRecording = False, r_process = False, r_outputPath = Some ''rec_segment2.wav'' \<rparr>)"
    by (simp add: ex_manager_def ex_stop_world_def rec_stopRecording_def)
  have ok: "st_success \<lparr> st_success = True, st_error = None, st_forced = False \<rparr>"
    by simp
  have len: "length (rec_segments ex_recording) > 1" and len2: "length (rec_segments ex_recording) = 2"
    by (simp_all add: ex_recording_def ex_segments_def)
  have fail: "mergeSegments (sw_concat ex_stop_world) (rec_segments ex_recording) (rec_outputPath ex_recording) ex_files =
       (Some ''Failed to merge segments: Invalid data found when processing input'', {''rec.wav''})"
    by (simp add: ex_stop_world_def ex_recording_def mergeSegments_def ex_concat_failure_def
        ex_segments_def ex_files_def unlink_def path_join_def Let_def insert_Diff_if)
  have msg: "''Failed to merge segments: Invalid data found when processing input'' \<noteq> []"
    by simp
  show ?thesis
    using stop_reports_merge_failure [OF cur stop ok len fail msg] cur stop len2 fail
    by (simp add: ex_manager_def ex_recording_def ex_stop_world_def)
qed

text \<open>
  Claim C5 as stated fails: the adapter stops cleanly, the concatenation fails, and the
  answer of \<open>stopRecording\<close> carries \<open>success = False\<close>.
\<close>

theorem stop_merge_failure_counterexample:
  "fst (rec_stopRecording (sw_stop ex_stop_world) (recorder ex_manager)) =
       Inr \<lparr> st_success = True, st_error = None, st_forced = False \<rparr>
   \<and> fst (mergeSegments ex_concat_failure ex_segments ''rec.wav'' ex_files) \<noteq> None
   \<and> fst (mgr_stopRecording ex_stop_world ex_manager ex_files) =
       StopResult False ''rec.wav'' 30000
         [\<lparr> gap_start = 10000, gap_end = Some 15000, gap_duration = Some 5000 \<rparr>] ex_segments
         (Some ''Failed to merge segments: Invalid data found when processing input'')"
  by (simp add: mgr_stopRecording_def ex_stop_world_def ex_manager_def ex_recording_def
      rec_stopRecording_def falsy_def
      mergeSegments_def ex_concat_failure_def ex_segments_def ex_files_def unlink_def
      path_join_def Let_def insert_Diff_if)

end
